theory Spec2Isabelle
  imports Complex_Main "HOL-Library.Sublist" "HOL-Library.Multiset"
begin

section \<open>Total-ReClaw: the storage-and-ranking engine\<close>

text \<open>
  A shallow embedding of the TypeScript sources: \<^verbatim>\<open>scoring.ts\<close> (ranking),
  \<^verbatim>\<open>capture.ts\<close> (capture heuristic), \<^verbatim>\<open>db.ts\<close> (the SQLite-backed vault),
  \<^verbatim>\<open>consolidation.ts\<close> (cluster-and-merge, in both variants the sources carry),
  \<^verbatim>\<open>sanitize.ts\<close> and the \<^verbatim>\<open>memory_save\<close> tool of \<^verbatim>\<open>index.ts\<close>.

  JavaScript numbers are modelled as exact reals (timestamps as integers, counters as naturals):
  rounding of IEEE doubles and of the Float32 vector encoding is outside the model. Strings are
  lists of 8-bit characters.
\<close>

subsection \<open>Ranking engine (scoring.ts)\<close>

definition HALF_LIFE_DAYS :: real where
  "HALF_LIFE_DAYS = 30"

definition DECAY_LAMBDA :: real where
  "DECAY_LAMBDA = ln 2 / (HALF_LIFE_DAYS * 24 * 60 * 60 * 1000)"

definition recencyDecay :: "real \<Rightarrow> real \<Rightarrow> real" where
  "recencyDecay createdAt now = (let age = now - createdAt in exp (- DECAY_LAMBDA * age))"

text \<open>The access count is a non-negative integer column, so \<^verbatim>\<open>Math.log2(1 + accessCount)\<close> is
  always defined.\<close>

definition accessBoost :: "nat \<Rightarrow> real" where
  "accessBoost accessCount = min 1.3 (1 + log 2 (1 + real accessCount) * 0.1)"

definition finalScore :: "real \<Rightarrow> real \<Rightarrow> real \<Rightarrow> nat \<Rightarrow> real \<Rightarrow> real" where
  "finalScore similarity createdAt importance accessCount now =
     (let recency = recencyDecay createdAt now;
          boost = accessBoost accessCount
      in similarity * (0.5 + 0.3 * recency + 0.2 * importance) * boost)"

subsection \<open>Regular expressions, as the sources use them\<close>

text \<open>
  The patterns of the sources use character classes, bounded and unbounded repetition of a
  class (greedy or lazy), alternation, the word boundary and the multi-line line start. A match
  attempt at a cursor (the character before, the rest of the input) returns the cursors after
  every way to match, in the order a backtracking matcher tries them: the head is the match
  JavaScript reports.
\<close>

text \<open>Character classes: \<^verbatim>\<open>\w\<close>, \<^verbatim>\<open>\d\<close>, \<^verbatim>\<open>\s\<close> (its members below U+0100), the
  line terminators, and the case folding of the \<^verbatim>\<open>i\<close> flag on ASCII letters.\<close>

definition upper_chars :: string where
  "upper_chars = ''ABCDEFGHIJKLMNOPQRSTUVWXYZ''"

definition lower_chars :: string where
  "lower_chars = ''abcdefghijklmnopqrstuvwxyz''"

definition digit_chars :: string where
  "digit_chars = ''0123456789''"

definition is_upper :: "char \<Rightarrow> bool" where
  "is_upper c = (c \<in> set upper_chars)"

definition is_lower :: "char \<Rightarrow> bool" where
  "is_lower c = (c \<in> set lower_chars)"

definition is_digit :: "char \<Rightarrow> bool" where
  "is_digit c = (c \<in> set digit_chars)"

definition is_alpha :: "char \<Rightarrow> bool" where
  "is_alpha c = (is_upper c \<or> is_lower c)"

definition is_word :: "char \<Rightarrow> bool" where
  "is_word c = (is_alpha c \<or> is_digit c \<or> c = CHR ''_'')"

definition is_space :: "char \<Rightarrow> bool" where
  "is_space c = (c \<in> set [CHR 0x09, CHR 0x0A, CHR 0x0B, CHR 0x0C, CHR 0x0D, CHR 0x20, CHR 0xA0])"

definition is_line_terminator :: "char \<Rightarrow> bool" where
  "is_line_terminator c = (c = CHR 0x0A \<or> c = CHR 0x0D)"

definition to_lower :: "char \<Rightarrow> char" where
  "to_lower c = (case map_of (zip upper_chars lower_chars) c of Some l \<Rightarrow> l | None \<Rightarrow> c)"

text \<open>\<^verbatim>\<open>Rep p lo hi greedy\<close> is the class \<^verbatim>\<open>p\<close> repeated \<^verbatim>\<open>lo\<close> to \<^verbatim>\<open>hi\<close> times
  (\<^verbatim>\<open>None\<close>: unbounded).\<close>

datatype regex =
    Chr "char \<Rightarrow> bool"
  | Rep "char \<Rightarrow> bool" nat "nat option" bool
  | WordB
  | LineStart
  | Eps
  | Seq regex regex
  | Alt regex regex

type_synonym cursor = "char option \<times> string"

fun rep_states :: "(char \<Rightarrow> bool) \<Rightarrow> cursor \<Rightarrow> cursor list" where
  "rep_states p (prev, []) = [(prev, [])]"
| "rep_states p (prev, c # cs) =
     (prev, c # cs) # (if p c then rep_states p (Some c, cs) else [])"

definition word_before :: "cursor \<Rightarrow> bool" where
  "word_before cur = (case fst cur of None \<Rightarrow> False | Some c \<Rightarrow> is_word c)"

definition word_after :: "cursor \<Rightarrow> bool" where
  "word_after cur = (case snd cur of [] \<Rightarrow> False | c # _ \<Rightarrow> is_word c)"

fun rx_match :: "regex \<Rightarrow> cursor \<Rightarrow> cursor list" where
  "rx_match (Chr p) cur =
     (case snd cur of [] \<Rightarrow> [] | c # cs \<Rightarrow> if p c then [(Some c, cs)] else [])"
| "rx_match (Rep p lo hi greedy) cur =
     (let all = rep_states p cur;
          upto = (case hi of None \<Rightarrow> all | Some h \<Rightarrow> take (Suc h) all);
          sel = drop lo upto
      in if greedy then rev sel else sel)"
| "rx_match WordB cur = (if word_before cur \<noteq> word_after cur then [cur] else [])"
| "rx_match LineStart cur =
     (case fst cur of None \<Rightarrow> [cur] | Some c \<Rightarrow> if is_line_terminator c then [cur] else [])"
| "rx_match Eps cur = [cur]"
| "rx_match (Seq a b) cur = concat (map (rx_match b) (rx_match a cur))"
| "rx_match (Alt a b) cur = rx_match a cur @ rx_match b cur"

text \<open>\<^verbatim>\<open>pattern.test(text)\<close>: some start position has a match.\<close>

fun rx_search :: "regex \<Rightarrow> cursor \<Rightarrow> bool" where
  "rx_search r (prev, []) = (rx_match r (prev, []) \<noteq> [])"
| "rx_search r (prev, c # cs) = (rx_match r (prev, c # cs) \<noteq> [] \<or> rx_search r (Some c, cs))"

definition rx_test :: "regex \<Rightarrow> string \<Rightarrow> bool" where
  "rx_test r text = rx_search r (None, text)"

text \<open>\<^verbatim>\<open>text.match(pattern)\<close> with the \<^verbatim>\<open>g\<close> flag: the successive leftmost matches, each
  search resuming where the last match ended (one character further after an empty match).
  \<^verbatim>\<open>skip\<close> counts the characters still covered by the last match.\<close>

fun rx_match_all_from :: "regex \<Rightarrow> cursor \<Rightarrow> nat \<Rightarrow> string list" where
  "rx_match_all_from r (prev, []) skip =
     (if skip = 0 \<and> rx_match r (prev, []) \<noteq> [] then [[]] else [])"
| "rx_match_all_from r (prev, c # cs) skip =
     (if 0 < skip then rx_match_all_from r (Some c, cs) (skip - 1)
      else (case rx_match r (prev, c # cs) of
              [] \<Rightarrow> rx_match_all_from r (Some c, cs) 0
            | m # _ \<Rightarrow>
                (let n = length (c # cs) - length (snd m)
                 in take n (c # cs) # rx_match_all_from r (Some c, cs) (n - 1))))"

definition rx_match_all :: "regex \<Rightarrow> string \<Rightarrow> string list" where
  "rx_match_all r text = rx_match_all_from r (None, text) 0"

definition lit :: "string \<Rightarrow> regex" where
  "lit s = foldr (\<lambda>c r. Seq (Chr (\<lambda>x. x = c)) r) s Eps"

definition lit_i :: "string \<Rightarrow> regex" where
  "lit_i s = foldr (\<lambda>c r. Seq (Chr (\<lambda>x. to_lower x = to_lower c)) r) s Eps"

definition alts :: "regex list \<Rightarrow> regex" where
  "alts rs = foldr Alt rs (Chr (\<lambda>_. False))"

definition seqs :: "regex list \<Rightarrow> regex" where
  "seqs rs = foldr Seq rs Eps"

subsection \<open>Capture heuristic (capture.ts)\<close>

text \<open>\<^verbatim>\<open>/\b(remember|don't forget|note that|keep in mind|save this)\b/i\<close>\<close>

definition EXPLICIT_MEMORY :: regex where
  "EXPLICIT_MEMORY = seqs [WordB,
     alts (map lit_i [''remember'', ''don't forget'', ''note that'', ''keep in mind'', ''save this'']),
     WordB]"

text \<open>\<^verbatim>\<open>/\b(my |I prefer|I use |I like |I need |we decided|I always|I never)\b/i\<close>\<close>

definition PERSONAL_INFO :: regex where
  "PERSONAL_INFO = seqs [WordB,
     alts (map lit_i [''my '', ''I prefer'', ''I use '', ''I like '', ''I need '', ''we decided'',
                      ''I always'', ''I never'']),
     WordB]"

text \<open>Three alternatives: an e-mail address \<^verbatim>\<open>\b[A-Z0-9._%+-]+@[A-Z0-9.-]+\.[A-Z]{2,}\b\<close>, a
  phone number \<^verbatim>\<open>\b\d{3}[-.]?\d{3}[-.]?\d{4}\b\<close>, a date \<^verbatim>\<open>\b\d{4}[-/]\d{2}[-/]\d{2}\b\<close>;
  flag \<^verbatim>\<open>i\<close>.\<close>

definition email_local :: "char \<Rightarrow> bool" where
  "email_local c = (is_alpha c \<or> is_digit c \<or> c \<in> set ''._%+-'')"

definition email_domain :: "char \<Rightarrow> bool" where
  "email_domain c = (is_alpha c \<or> is_digit c \<or> c \<in> set ''.-'')"

definition STRUCTURED_DATA :: regex where
  "STRUCTURED_DATA = alts [
     seqs [WordB, Rep email_local 1 None True, lit ''@'', Rep email_domain 1 None True, lit ''.'',
           Rep is_alpha 2 None True, WordB],
     seqs [WordB, Rep is_digit 3 (Some 3) True, Rep (\<lambda>c. c \<in> set ''-.'') 0 (Some 1) True,
           Rep is_digit 3 (Some 3) True, Rep (\<lambda>c. c \<in> set ''-.'') 0 (Some 1) True,
           Rep is_digit 4 (Some 4) True, WordB],
     seqs [WordB, Rep is_digit 4 (Some 4) True, Chr (\<lambda>c. c \<in> set ''-/''),
           Rep is_digit 2 (Some 2) True, Chr (\<lambda>c. c \<in> set ''-/''),
           Rep is_digit 2 (Some 2) True, WordB]]"

text \<open>\<^verbatim>\<open>/\b(we'll use|switched to|let's go with|migrated to|chose|decided on|going with)\b/i\<close>\<close>

definition TECH_DECISION :: regex where
  "TECH_DECISION = seqs [WordB,
     alts (map lit_i [''we'll use'', ''switched to'', ''let's go with'', ''migrated to'', ''chose'',
                      ''decided on'', ''going with'']),
     WordB]"

text \<open>\<^verbatim>\<open>/\b(always|never|prefer|instead of|rather than|better than)\b/i\<close>\<close>

definition PREFERENCE :: regex where
  "PREFERENCE = seqs [WordB,
     alts (map lit_i [''always'', ''never'', ''prefer'', ''instead of'', ''rather than'',
                      ''better than'']),
     WordB]"

text \<open>\<^verbatim>\<open>/<relevant-memories|<vault-memories/\<close> (case-sensitive).\<close>

definition RELEVANT_MEMORIES_TAG :: regex where
  "RELEVANT_MEMORIES_TAG = Alt (lit ''<relevant-memories'') (lit ''<vault-memories'')"

text \<open>The two penalty patterns: three backquotes, and \<^verbatim>\<open>/^#{1,6}\s/gm\<close>.\<close>

definition CODE_FENCE :: regex where
  "CODE_FENCE = lit ''```''"

definition MARKDOWN_HEADER :: regex where
  "MARKDOWN_HEADER = seqs [LineStart, Rep (\<lambda>c. c = CHR ''#'') 1 (Some 6) True, Chr is_space]"

record CaptureResult =
  capture_score :: real
  capture_category :: string

definition CATEGORIES :: "(regex \<times> string \<times> real) list" where
  "CATEGORIES = [
     (EXPLICIT_MEMORY, ''preference'', 0.5),
     (PERSONAL_INFO, ''preference'', 0.3),
     (STRUCTURED_DATA, ''entity'', 0.3),
     (TECH_DECISION, ''decision'', 0.3),
     (PREFERENCE, ''preference'', 0.2)]"

text \<open>The loop body of \<^verbatim>\<open>evaluateCapture\<close> over the accumulators \<^verbatim>\<open>score\<close>,
  \<^verbatim>\<open>bestCategory\<close>, \<^verbatim>\<open>bestCategoryScore\<close>.\<close>

definition rule_pattern :: "regex \<times> string \<times> real \<Rightarrow> regex" where
  "rule_pattern rule = fst rule"

definition rule_category :: "regex \<times> string \<times> real \<Rightarrow> string" where
  "rule_category rule = fst (snd rule)"

definition rule_weight :: "regex \<times> string \<times> real \<Rightarrow> real" where
  "rule_weight rule = snd (snd rule)"

definition capture_step :: "string \<Rightarrow> real \<times> string \<times> real \<Rightarrow> regex \<times> string \<times> real
    \<Rightarrow> real \<times> string \<times> real" where
  "capture_step text acc rule =
     (case acc of (score', bestCategory, bestCategoryScore) \<Rightarrow>
        if rx_test (rule_pattern rule) text
        then (if rule_weight rule > bestCategoryScore
              then (score' + rule_weight rule, rule_category rule, rule_weight rule)
              else (score' + rule_weight rule, bestCategory, bestCategoryScore))
        else (score', bestCategory, bestCategoryScore))"

definition codeBlocks :: "string \<Rightarrow> nat" where
  "codeBlocks text = length (rx_match_all CODE_FENCE text)"

definition markdownHeaders :: "string \<Rightarrow> nat" where
  "markdownHeaders text = length (rx_match_all MARKDOWN_HEADER text)"

definition evaluateCapture :: "string \<Rightarrow> CaptureResult" where
  "evaluateCapture text =
     (if text = [] \<or> length text < 20 \<or> length text > 2000
      then \<lparr>capture_score = 0, capture_category = ''other''\<rparr>
      else if rx_test RELEVANT_MEMORIES_TAG text
      then \<lparr>capture_score = 0, capture_category = ''other''\<rparr>
      else
        (case foldl (capture_step text) (0, ''other'', 0) CATEGORIES of
           (score0, bestCategory, bestCategoryScore) \<Rightarrow>
             (let score1 = (if codeBlocks text \<ge> 2 then score0 - 0.3 else score0);
                  score2 = (if markdownHeaders text \<ge> 3 then score1 - 0.2 else score1)
              in \<lparr>capture_score = max 0 score2, capture_category = bestCategory\<rparr>)))"

text \<open>The words of the specification: the rules whose pattern matches, in table order, and
  the position of the first rule of greatest weight among a list of rules.\<close>

definition matched_rules :: "string \<Rightarrow> (regex \<times> string \<times> real) list" where
  "matched_rules text = filter (\<lambda>rule. rx_test (rule_pattern rule) text) CATEGORIES"

definition first_heaviest :: "(regex \<times> string \<times> real) list \<Rightarrow> nat \<Rightarrow> bool" where
  "first_heaviest rules i \<longleftrightarrow>
     i < length rules \<and>
     (\<forall>j<length rules. rule_weight (rules ! j) \<le> rule_weight (rules ! i)) \<and>
     (\<forall>j<i. rule_weight (rules ! j) < rule_weight (rules ! i))"

subsection \<open>The vault (db.ts)\<close>

type_synonym vec = "real list"

text \<open>\<^verbatim>\<open>MemoryRow\<close> and \<^verbatim>\<open>SearchResult\<close>. The fields \<^verbatim>\<open>id\<close> and \<^verbatim>\<open>text\<close> carry a prime here, the
  plain names being taken.\<close>

record MemoryRow =
  id' :: string
  text' :: string
  category :: string
  importance :: real
  access_count :: nat
  created_at :: int
  updated_at :: int
  last_accessed_at :: "int option"
  consolidated_into :: "string option"
  agent_id :: "string option"
  namespace :: string
  metadata :: "string option"

record SearchResult = MemoryRow +
  distance :: real
  similarity :: real
  score :: real

text \<open>
  The persisted layout: the \<^verbatim>\<open>memories\<close> table in rowid order, the \<^verbatim>\<open>memory_vec\<close> virtual table
  (absent until created; its declared dimension and its rows in rowid order), and the
  \<^verbatim>\<open>dimensions\<close> entry of \<^verbatim>\<open>vault_meta\<close> (written with \<^verbatim>\<open>String\<close>, read back with
  \<^verbatim>\<open>parseInt\<close>: kept as the number).
\<close>

record tables =
  memories :: "MemoryRow list"
  memory_vec :: "(nat \<times> (string \<times> vec) list) option"
  meta_dimensions :: "nat option"

datatype sql_error =
    UniqueConstraint string
  | NoSuchTable string
  | VecDimension nat nat
  | NestedTransaction
  | NoTransaction

datatype error =
    Sql sql_error
  | DimensionMismatch nat nat
  | ExtensionLoadFailed
  | EmbeddingNotInitialized
  | EmbeddingFailed string

text \<open>
  A connection: the database as the connection sees it, the content at \<^verbatim>\<open>BEGIN\<close> while a
  transaction is open (what \<^verbatim>\<open>ROLLBACK\<close> restores and what a crash leaves on disk), the
  instance fields \<^verbatim>\<open>dimensions\<close> and \<^verbatim>\<open>vecReady\<close>, and whether the sqlite-vec extension can be
  loaded. \<^verbatim>\<open>durable\<close> is a history for the proofs: every state committed to disk through
  this connection, newest first.
\<close>

record VaultDB =
  db :: tables
  snapshot :: "tables option"
  durable :: "tables list"
  dimensions :: "nat option"
  vecReady :: bool
  extensionAvailable :: bool

definition empty_tables :: tables where
  "empty_tables = \<lparr>memories = [], memory_vec = None, meta_dimensions = None\<rparr>"

text \<open>\<^verbatim>\<open>new VaultDB(dbPath)\<close> on a path with no database yet.\<close>

definition new_VaultDB :: VaultDB where
  "new_VaultDB = \<lparr>db = empty_tables, snapshot = None, durable = [empty_tables],
     dimensions = None, vecReady = False, extensionAvailable = True\<rparr>"


text \<open>
  One SQL statement. Outside a transaction SQLite commits each statement on its own
  (autocommit), so its result is durable at once; inside one it becomes durable at
  \<^verbatim>\<open>COMMIT\<close>. A statement that fails changes nothing.
\<close>

definition exec :: "(tables \<Rightarrow> sql_error + tables) \<Rightarrow> VaultDB \<Rightarrow> (error + unit) \<times> VaultDB" where
  "exec stmt v =
     (case stmt (db v) of
        Inl e \<Rightarrow> (Inl (Sql e), v)
      | Inr t \<Rightarrow>
          (Inr (), v\<lparr>db := t,
                      durable := (if snapshot v = None then t # durable v else durable v)\<rparr>))"

definition sql_begin :: "VaultDB \<Rightarrow> (error + unit) \<times> VaultDB" where
  "sql_begin v =
     (case snapshot v of
        Some _ \<Rightarrow> (Inl (Sql NestedTransaction), v)
      | None \<Rightarrow> (Inr (), v\<lparr>snapshot := Some (db v)\<rparr>))"

definition sql_commit :: "VaultDB \<Rightarrow> (error + unit) \<times> VaultDB" where
  "sql_commit v =
     (case snapshot v of
        None \<Rightarrow> (Inl (Sql NoTransaction), v)
      | Some _ \<Rightarrow> (Inr (), v\<lparr>snapshot := None, durable := db v # durable v\<rparr>))"

definition sql_rollback :: "VaultDB \<Rightarrow> (error + unit) \<times> VaultDB" where
  "sql_rollback v =
     (case snapshot v of
        None \<Rightarrow> (Inl (Sql NoTransaction), v)
      | Some t \<Rightarrow> (Inr (), v\<lparr>db := t, snapshot := None\<rparr>))"

text \<open>
  \<^verbatim>\<open>transaction(fn)\<close>: \<^verbatim>\<open>BEGIN\<close>, then \<^verbatim>\<open>fn()\<close> and \<^verbatim>\<open>COMMIT\<close> under \<^verbatim>\<open>try\<close>; the \<^verbatim>\<open>catch\<close> runs
  \<^verbatim>\<open>ROLLBACK\<close> and rethrows (an error of \<^verbatim>\<open>ROLLBACK\<close> itself is the one that escapes).
\<close>

definition transaction :: "(VaultDB \<Rightarrow> (error + unit) \<times> VaultDB) \<Rightarrow> VaultDB \<Rightarrow> (error + unit) \<times> VaultDB" where
  "transaction fn v =
     (case sql_begin v of
        (Inl e, v1) \<Rightarrow> (Inl e, v1)
      | (Inr _, v1) \<Rightarrow>
          (case fn v1 of
             (Inr _, v2) \<Rightarrow>
               (case sql_commit v2 of
                  (Inr _, v3) \<Rightarrow> (Inr (), v3)
                | (Inl e, v3) \<Rightarrow>
                    (case sql_rollback v3 of
                       (Inl e', v4) \<Rightarrow> (Inl e', v4)
                     | (Inr _, v4) \<Rightarrow> (Inl e, v4)))
           | (Inl e, v2) \<Rightarrow>
               (case sql_rollback v2 of
                  (Inl e', v3) \<Rightarrow> (Inl e', v3)
                | (Inr _, v3) \<Rightarrow> (Inl e, v3))))"

text \<open>\<^verbatim>\<open>CREATE VIRTUAL TABLE IF NOT EXISTS memory_vec USING vec0(id TEXT PRIMARY KEY, embedding float[d])\<close>\<close>

definition create_memory_vec :: "nat \<Rightarrow> tables \<Rightarrow> sql_error + tables" where
  "create_memory_vec d t =
     (case memory_vec t of
        None \<Rightarrow> Inr (t\<lparr>memory_vec := Some (d, [])\<rparr>)
      | Some _ \<Rightarrow> Inr t)"

text \<open>\<^verbatim>\<open>INSERT OR REPLACE INTO vault_meta (key, value) VALUES ('dimensions', d)\<close>\<close>

definition put_dimensions :: "nat \<Rightarrow> tables \<Rightarrow> sql_error + tables" where
  "put_dimensions d t = Inr (t\<lparr>meta_dimensions := Some d\<rparr>)"

text \<open>
  \<^verbatim>\<open>ensureVec\<close>. The probe \<^verbatim>\<open>SELECT * FROM memory_vec LIMIT 0\<close> succeeds exactly when the table
  exists, as the comments of the source say. The field \<^verbatim>\<open>dimensions\<close> is assigned before the
  check, so it is set also when the call throws.
\<close>

definition ensureVec :: "nat \<Rightarrow> VaultDB \<Rightarrow> (error + unit) \<times> VaultDB" where
  "ensureVec dims v =
     (if vecReady v then (Inr (), v)
      else
        (let v1 = v\<lparr>dimensions := Some dims\<rparr> in
         case memory_vec (db v1) of
           Some _ \<Rightarrow>
             (case meta_dimensions (db v1) of
                Some storedDims \<Rightarrow>
                  if storedDims \<noteq> dims then (Inl (DimensionMismatch storedDims dims), v1)
                  else (Inr (), v1\<lparr>vecReady := True\<rparr>)
              | None \<Rightarrow> (Inr (), v1\<lparr>vecReady := True\<rparr>))
         | None \<Rightarrow>
             if \<not> extensionAvailable v1 then (Inl ExtensionLoadFailed, v1)
             else
               (case exec (create_memory_vec dims) v1 of
                  (Inl e, v2) \<Rightarrow> (Inl e, v2)
                | (Inr _, v2) \<Rightarrow>
                    (case exec (put_dimensions dims) v2 of
                       (Inl e, v3) \<Rightarrow> (Inl e, v3)
                     | (Inr _, v3) \<Rightarrow> (Inr (), v3\<lparr>vecReady := True\<rparr>)))))"

text \<open>\<^verbatim>\<open>INSERT INTO memories\<close>: the primary key \<^verbatim>\<open>id\<close> must be new.\<close>

definition insert_memories :: "MemoryRow \<Rightarrow> tables \<Rightarrow> sql_error + tables" where
  "insert_memories row t =
     (if id' row \<in> set (map id' (memories t)) then Inl (UniqueConstraint ''memories.id'')
      else Inr (t\<lparr>memories := memories t @ [row]\<rparr>))"

text \<open>\<^verbatim>\<open>INSERT INTO memory_vec\<close>: the table must exist, the vector must have the declared
  dimension of the \<^verbatim>\<open>embedding\<close> column, and the primary key must be new.\<close>

definition insert_memory_vec :: "string \<Rightarrow> vec \<Rightarrow> tables \<Rightarrow> sql_error + tables" where
  "insert_memory_vec i e t =
     (case memory_vec t of
        None \<Rightarrow> Inl (NoSuchTable ''memory_vec'')
      | Some (d, rows) \<Rightarrow>
          if length e \<noteq> d then Inl (VecDimension d (length e))
          else if i \<in> set (map fst rows) then Inl (UniqueConstraint ''memory_vec.id'')
          else Inr (t\<lparr>memory_vec := Some (d, rows @ [(i, e)])\<rparr>))"

record InsertOpts =
  opt_category :: "string option"
  opt_importance :: "real option"
  opt_agentId :: "string option"
  opt_namespace :: "string option"
  opt_metadata :: "string option"
  opt_createdAt :: "int option"

definition no_opts :: InsertOpts where
  "no_opts = \<lparr>opt_category = None, opt_importance = None, opt_agentId = None,
     opt_namespace = None, opt_metadata = None, opt_createdAt = None\<rparr>"

definition new_row :: "string \<Rightarrow> string \<Rightarrow> InsertOpts \<Rightarrow> int \<Rightarrow> MemoryRow" where
  "new_row i txt opts now =
     \<lparr>id' = i, text' = txt,
      category = (case opt_category opts of None \<Rightarrow> ''other'' | Some c \<Rightarrow> c),
      importance = (case opt_importance opts of None \<Rightarrow> 0.7 | Some x \<Rightarrow> x),
      access_count = 0,
      created_at = (case opt_createdAt opts of None \<Rightarrow> now | Some c \<Rightarrow> c),
      updated_at = now,
      last_accessed_at = None,
      consolidated_into = None,
      agent_id = opt_agentId opts,
      namespace = (case opt_namespace opts of None \<Rightarrow> ''default'' | Some n \<Rightarrow> n),
      metadata = opt_metadata opts\<rparr>"

text \<open>\<^verbatim>\<open>insert\<close>: \<^verbatim>\<open>ensureVec\<close>, then the two \<^verbatim>\<open>INSERT\<close> statements, one after the other.\<close>

definition insert' :: "string \<Rightarrow> string \<Rightarrow> vec \<Rightarrow> InsertOpts \<Rightarrow> int \<Rightarrow> VaultDB \<Rightarrow> (error + unit) \<times> VaultDB" where
  "insert' i txt embedding opts now v =
     (case ensureVec (length embedding) v of
        (Inl e, v1) \<Rightarrow> (Inl e, v1)
      | (Inr _, v1) \<Rightarrow>
          (case exec (insert_memories (new_row i txt opts now)) v1 of
             (Inl e, v2) \<Rightarrow> (Inl e, v2)
           | (Inr _, v2) \<Rightarrow> exec (insert_memory_vec i embedding) v2))"

text \<open>\<^verbatim>\<open>vec_distance_cosine\<close> of sqlite-vec, over exact reals.\<close>

definition dot :: "vec \<Rightarrow> vec \<Rightarrow> real" where
  "dot a b = sum_list (map2 (*) a b)"

definition vec_distance_cosine :: "vec \<Rightarrow> vec \<Rightarrow> real" where
  "vec_distance_cosine a b = 1 - dot a b / (sqrt (dot a a) * sqrt (dot b b))"

text \<open>
  The query shared by \<^verbatim>\<open>knnSearch\<close> and \<^verbatim>\<open>findSimilar\<close>:
  \<^verbatim>\<open>SELECT m.*, vec_distance_cosine(v.embedding, ?) AS distance FROM memory_vec v
  JOIN memories m ON m.id = v.id WHERE m.consolidated_into IS NULL [AND m.category = ?]
  ORDER BY distance ASC LIMIT ?\<close>.
  Rows of equal distance keep the scan order of \<^verbatim>\<open>memory_vec\<close>. The distance function
  rejects a query vector whose length differs from a stored vector's.
\<close>

definition joined_rows :: "tables \<Rightarrow> (string \<times> vec) list \<Rightarrow> (MemoryRow \<times> vec) list" where
  "joined_rows t vrows =
     concat (map (\<lambda>(i, e). map (\<lambda>m. (m, e)) (filter (\<lambda>m. id' m = i) (memories t))) vrows)"

definition knn_candidates :: "tables \<Rightarrow> string option \<Rightarrow> (string \<times> vec) list \<Rightarrow> (MemoryRow \<times> vec) list" where
  "knn_candidates t cat vrows =
     filter (\<lambda>(m, e). consolidated_into m = None \<and>
                      (case cat of None \<Rightarrow> True | Some c \<Rightarrow> category m = c))
       (joined_rows t vrows)"

definition knn_query :: "tables \<Rightarrow> vec \<Rightarrow> string option \<Rightarrow> nat \<Rightarrow> sql_error + (MemoryRow \<times> real) list" where
  "knn_query t q cat n =
     (case memory_vec t of
        None \<Rightarrow> Inl (NoSuchTable ''memory_vec'')
      | Some (d, vrows) \<Rightarrow>
          (let cands = knn_candidates t cat vrows in
           if list_ex (\<lambda>(m, e). length e \<noteq> length q) cands then Inl (VecDimension d (length q))
           else Inr (take n (sort_key snd (map (\<lambda>(m, e). (m, vec_distance_cosine e q)) cands)))))"

definition to_result :: "MemoryRow \<Rightarrow> real \<Rightarrow> real \<Rightarrow> real \<Rightarrow> SearchResult" where
  "to_result m d sim sc =
     \<lparr>id' = id' m, text' = text' m, category = category m, importance = importance m,
      access_count = access_count m, created_at = created_at m, updated_at = updated_at m,
      last_accessed_at = last_accessed_at m, consolidated_into = consolidated_into m,
      agent_id = agent_id m, namespace = namespace m, metadata = metadata m,
      distance = d, similarity = sim, score = sc\<rparr>"

text \<open>\<^verbatim>\<open>UPDATE memories SET access_count = access_count + 1, last_accessed_at = ? WHERE id = ?\<close>\<close>

definition bump_access :: "int \<Rightarrow> string \<Rightarrow> tables \<Rightarrow> sql_error + tables" where
  "bump_access now i t =
     Inr (t\<lparr>memories := map (\<lambda>m. if id' m = i
                                  then m\<lparr>access_count := access_count m + 1, last_accessed_at := Some now\<rparr>
                                  else m) (memories t)\<rparr>)"

text \<open>A \<^verbatim>\<open>for\<close> loop running one statement per element, stopping at the first that throws.\<close>

fun exec_each :: "('a \<Rightarrow> tables \<Rightarrow> sql_error + tables) \<Rightarrow> 'a list \<Rightarrow> VaultDB \<Rightarrow> (error + unit) \<times> VaultDB" where
  "exec_each stmt [] v = (Inr (), v)"
| "exec_each stmt (x # xs) v =
     (case exec (stmt x) v of
        (Inl e, v1) \<Rightarrow> (Inl e, v1)
      | (Inr _, v1) \<Rightarrow> exec_each stmt xs v1)"

text \<open>
  \<^verbatim>\<open>knnSearch\<close>. \<^verbatim>\<open>limit\<close> is a count (the tools pass 1 to 20, the default 5); a category that
  is absent or empty does not filter. \<^verbatim>\<open>Array.prototype.sort\<close> is stable, so is \<^verbatim>\<open>sort_key\<close>.
\<close>

definition scored_candidates :: "(MemoryRow \<times> real) list \<Rightarrow> int \<Rightarrow> SearchResult list" where
  "scored_candidates rows now =
     map (\<lambda>(m, d).
            (let similarity = 1 - d in
             to_result m d similarity
               (finalScore similarity (real_of_int (created_at m)) (importance m) (access_count m)
                  (real_of_int now)))) rows"

definition category_filter :: "string option \<Rightarrow> string option" where
  "category_filter cat = (case cat of None \<Rightarrow> None | Some c \<Rightarrow> if c = [] then None else Some c)"

definition knnSearch :: "vec \<Rightarrow> nat \<Rightarrow> string option \<Rightarrow> int \<Rightarrow> VaultDB \<Rightarrow> (error + SearchResult list) \<times> VaultDB" where
  "knnSearch queryVec limit cat now v =
     (if \<not> vecReady v then (Inr [], v)
      else
        (let candidateLimit = limit * 3 in
         case knn_query (db v) queryVec (category_filter cat) candidateLimit of
           Inl e \<Rightarrow> (Inl (Sql e), v)
         | Inr rows \<Rightarrow>
             (let scored = sort_key (\<lambda>r. - score r) (scored_candidates rows now);
                  top = take limit scored in
              case exec_each (bump_access now) (map id' top) v of
                (Inl e, v1) \<Rightarrow> (Inl e, v1)
              | (Inr _, v1) \<Rightarrow> (Inr top, v1))))"

definition findSimilar :: "vec \<Rightarrow> real \<Rightarrow> VaultDB \<Rightarrow> error + SearchResult list" where
  "findSimilar embedding threshold v =
     (if \<not> vecReady v then Inr []
      else
        (case knn_query (db v) embedding None 5 of
           Inl e \<Rightarrow> Inl (Sql e)
         | Inr rows \<Rightarrow>
             Inr (filter (\<lambda>r. similarity r \<ge> threshold)
                    (map (\<lambda>(m, d). to_result m d (1 - d) 0) rows))))"

text \<open>\<^verbatim>\<open>UPDATE memories SET consolidated_into = ? WHERE id = ?\<close>\<close>

definition set_consolidated :: "string \<Rightarrow> string \<Rightarrow> tables \<Rightarrow> sql_error + tables" where
  "set_consolidated newId i t =
     Inr (t\<lparr>memories := map (\<lambda>m. if id' m = i then m\<lparr>consolidated_into := Some newId\<rparr> else m)
                            (memories t)\<rparr>)"

definition markConsolidated :: "string list \<Rightarrow> string \<Rightarrow> VaultDB \<Rightarrow> (error + unit) \<times> VaultDB" where
  "markConsolidated ids newId v = exec_each (set_consolidated newId) ids v"

text \<open>\<^verbatim>\<open>getActiveOlderThan\<close>: \<^verbatim>\<open>ORDER BY created_at ASC\<close>, rows of equal time in rowid order.\<close>

definition getActiveOlderThan :: "int \<Rightarrow> int \<Rightarrow> VaultDB \<Rightarrow> MemoryRow list" where
  "getActiveOlderThan ageMs now v =
     (let cutoff = now - ageMs in
      sort_key created_at
        (filter (\<lambda>m. consolidated_into m = None \<and> created_at m < cutoff) (memories (db v))))"

definition getVecById :: "string \<Rightarrow> VaultDB \<Rightarrow> vec option" where
  "getVecById i v =
     (if \<not> vecReady v then None
      else
        (case memory_vec (db v) of
           None \<Rightarrow> None
         | Some (d, rows) \<Rightarrow> map_of rows i))"

text \<open>
  The invariant of a vault: ids are primary keys of both tables, every stored vector has the
  declared dimension of the vector table, a recorded dimension is the declared one, and a
  connection that is ready has its vector table.
\<close>

definition vault_wf :: "VaultDB \<Rightarrow> bool" where
  "vault_wf v \<longleftrightarrow>
     distinct (map id' (memories (db v))) \<and>
     (case memory_vec (db v) of
        None \<Rightarrow> \<not> vecReady v
      | Some (d, rows) \<Rightarrow>
          distinct (map fst rows) \<and> list_all (\<lambda>(i, e). length e = d) rows \<and>
          (case meta_dimensions (db v) of None \<Rightarrow> True | Some d' \<Rightarrow> d' = d))"

text \<open>The active records that have a vector, each with its vector, in scan order.\<close>

definition active_vectors :: "VaultDB \<Rightarrow> (MemoryRow \<times> vec) list" where
  "active_vectors v =
     (case memory_vec (db v) of
        None \<Rightarrow> []
      | Some (d, rows) \<Rightarrow> knn_candidates (db v) None rows)"

subsection \<open>Consolidation (consolidation.ts)\<close>

definition SEVEN_DAYS :: int where
  "SEVEN_DAYS = 7 * 24 * 60 * 60 * 1000"

definition SIMILARITY_THRESHOLD :: real where
  "SIMILARITY_THRESHOLD = 0.85"

text \<open>A search result read as a memory row (\<^verbatim>\<open>SearchResult extends MemoryRow\<close>).\<close>

definition row_of :: "SearchResult \<Rightarrow> MemoryRow" where
  "row_of r =
     \<lparr>id' = id' r, text' = text' r, category = category r, importance = importance r,
      access_count = access_count r, created_at = created_at r, updated_at = updated_at r,
      last_accessed_at = last_accessed_at r, consolidated_into = consolidated_into r,
      agent_id = agent_id r, namespace = namespace r, metadata = metadata r\<rparr>"

text \<open>\<^verbatim>\<open>Array.prototype.join\<close>\<close>

fun join :: "string \<Rightarrow> string list \<Rightarrow> string" where
  "join sep [] = []"
| "join sep [x] = x"
| "join sep (x # y # ys) = x @ sep @ join sep (y # ys)"

text \<open>
  The state of one pass: the vault, the set \<^verbatim>\<open>clustered\<close>, \<^verbatim>\<open>mergeCount\<close>, and the number of
  ids drawn from \<^verbatim>\<open>crypto.randomUUID\<close> so far (the k-th draw is \<^verbatim>\<open>uuid k\<close>). \<^verbatim>\<open>merges\<close> is a
  record for the proofs: the values of \<^verbatim>\<open>newId\<close>, \<^verbatim>\<open>cluster\<close> and \<^verbatim>\<open>neighbors\<close> at every
  merge, the latest first.
\<close>

record pass_state =
  vault :: VaultDB
  clustered :: "string set"
  mergeCount :: nat
  drawn :: nat
  merges :: "(string \<times> MemoryRow list \<times> SearchResult list) list"

definition start_pass :: "VaultDB \<Rightarrow> pass_state" where
  "start_pass v = \<lparr>vault = v, clustered = {}, mergeCount = 0, drawn = 0, merges = []\<rparr>"

text \<open>The two writes of a merge: the successor's insert, then the marking of the cluster.\<close>

definition insert_and_mark :: "string \<Rightarrow> string \<Rightarrow> vec \<Rightarrow> string \<Rightarrow> real \<Rightarrow> string list \<Rightarrow> int
    \<Rightarrow> VaultDB \<Rightarrow> (error + unit) \<times> VaultDB" where
  "insert_and_mark newId mergedText newVec cat maxImportance ids now v =
     (case insert' newId mergedText newVec
             (no_opts\<lparr>opt_category := Some cat, opt_importance := Some maxImportance\<rparr>) now v of
        (Inl e, v1) \<Rightarrow> (Inl e, v1)
      | (Inr _, v1) \<Rightarrow> markConsolidated ids newId v1)"

text \<open>The \<^verbatim>\<open>for\<close> loop over \<^verbatim>\<open>old\<close>; an exception ends the pass.\<close>

fun consolidation_loop :: "(MemoryRow \<Rightarrow> pass_state \<Rightarrow> (error + unit) \<times> pass_state) \<Rightarrow> MemoryRow list \<Rightarrow> pass_state
    \<Rightarrow> (error + unit) \<times> pass_state" where
  "consolidation_loop body [] st = (Inr (), st)"
| "consolidation_loop body (mem # rest) st =
     (case body mem st of
        (Inl e, st1) \<Rightarrow> (Inl e, st1)
      | (Inr _, st1) \<Rightarrow> consolidation_loop body rest st1)"

text \<open>
  The first \<^verbatim>\<open>runConsolidation\<close> of consolidation.ts (lines 10 to 45): neighbours are tested for
  emptiness before they are looked up in \<^verbatim>\<open>old\<close>, and the two writes run outside a transaction.
  \<^verbatim>\<open>merge_cluster_v1\<close> is the loop body from \<^verbatim>\<open>const cluster\<close> on.
\<close>

definition merge_cluster_v1 :: "(nat \<Rightarrow> string) \<Rightarrow> (string \<Rightarrow> error + vec) \<Rightarrow> int \<Rightarrow> MemoryRow list
    \<Rightarrow> MemoryRow \<Rightarrow> SearchResult list \<Rightarrow> pass_state \<Rightarrow> (error + unit) \<times> pass_state" where
  "merge_cluster_v1 uuid embedFn now old mem neighbors st =
     (let cluster = mem # List.map_filter (\<lambda>n. find (\<lambda>m. id' m = id' n) old) neighbors;
          mergedText = join '' | '' (map text' cluster);
          maxImportance = foldl max (importance mem) (map importance (tl cluster));
          newId = uuid (drawn st);
          st1 = st\<lparr>drawn := Suc (drawn st)\<rparr> in
      case embedFn mergedText of
        Inl e \<Rightarrow> (Inl e, st1)
      | Inr newVec \<Rightarrow>
          (case insert_and_mark newId mergedText newVec (category mem) maxImportance
                  (map id' cluster) now (vault st1) of
             (Inl e, v1) \<Rightarrow> (Inl e, st1\<lparr>vault := v1\<rparr>)
           | (Inr _, v1) \<Rightarrow>
               (Inr (), st1\<lparr>vault := v1,
                             clustered := clustered st1 \<union> set (map id' cluster),
                             mergeCount := mergeCount st1 + 1,
                             merges := (newId, cluster, neighbors) # merges st1\<rparr>)))"

definition merge_seed_v1 :: "(nat \<Rightarrow> string) \<Rightarrow> (string \<Rightarrow> error + vec) \<Rightarrow> int \<Rightarrow> MemoryRow list
    \<Rightarrow> MemoryRow \<Rightarrow> pass_state \<Rightarrow> (error + unit) \<times> pass_state" where
  "merge_seed_v1 uuid embedFn now old mem st =
     (if id' mem \<in> clustered st then (Inr (), st)
      else
        (case getVecById (id' mem) (vault st) of
           None \<Rightarrow> (Inr (), st)
         | Some vec \<Rightarrow>
             (case findSimilar vec SIMILARITY_THRESHOLD (vault st) of
                Inl e \<Rightarrow> (Inl e, st)
              | Inr found \<Rightarrow>
                  (let neighbors = filter (\<lambda>n. id' n \<noteq> id' mem \<and> id' n \<notin> clustered st) found in
                   if length neighbors = 0 then (Inr (), st)
                   else merge_cluster_v1 uuid embedFn now old mem neighbors st))))"

definition runConsolidation_v1 :: "(nat \<Rightarrow> string) \<Rightarrow> (string \<Rightarrow> error + vec) \<Rightarrow> int \<Rightarrow> VaultDB
    \<Rightarrow> (error + nat) \<times> pass_state" where
  "runConsolidation_v1 uuid embedFn now v =
     (let old = getActiveOlderThan SEVEN_DAYS now v in
      if length old < 2 then (Inr 0, start_pass v)
      else
        (case consolidation_loop (merge_seed_v1 uuid embedFn now old) old (start_pass v) of
           (Inl e, st) \<Rightarrow> (Inl e, st)
         | (Inr _, st) \<Rightarrow> (Inr (mergeCount st), st)))"

text \<open>
  The second \<^verbatim>\<open>runConsolidation\<close> of consolidation.ts (lines 55 to 95): neighbours are
  restricted to \<^verbatim>\<open>oldIds\<close> before the emptiness test, and the two writes run inside
  \<^verbatim>\<open>db.transaction\<close>. \<^verbatim>\<open>merge_cluster_v2\<close> is the loop body from \<^verbatim>\<open>const cluster\<close> on.
\<close>

definition merge_cluster_v2 :: "(nat \<Rightarrow> string) \<Rightarrow> (string \<Rightarrow> error + vec) \<Rightarrow> int
    \<Rightarrow> MemoryRow \<Rightarrow> SearchResult list \<Rightarrow> pass_state \<Rightarrow> (error + unit) \<times> pass_state" where
  "merge_cluster_v2 uuid embedFn now mem neighbors st =
     (let cluster = mem # map row_of neighbors;
          mergedText = join '' | '' (map text' cluster);
          maxImportance = foldl max (importance mem) (map importance (tl cluster));
          newId = uuid (drawn st);
          st1 = st\<lparr>drawn := Suc (drawn st)\<rparr> in
      case embedFn mergedText of
        Inl e \<Rightarrow> (Inl e, st1)
      | Inr newVec \<Rightarrow>
          (case transaction
                  (insert_and_mark newId mergedText newVec (category mem) maxImportance
                     (map id' cluster) now) (vault st1) of
             (Inl e, v1) \<Rightarrow> (Inl e, st1\<lparr>vault := v1\<rparr>)
           | (Inr _, v1) \<Rightarrow>
               (Inr (), st1\<lparr>vault := v1,
                             clustered := clustered st1 \<union> set (map id' cluster),
                             mergeCount := mergeCount st1 + 1,
                             merges := (newId, cluster, neighbors) # merges st1\<rparr>)))"

definition merge_seed_v2 :: "(nat \<Rightarrow> string) \<Rightarrow> (string \<Rightarrow> error + vec) \<Rightarrow> int \<Rightarrow> string set
    \<Rightarrow> MemoryRow \<Rightarrow> pass_state \<Rightarrow> (error + unit) \<times> pass_state" where
  "merge_seed_v2 uuid embedFn now oldIds mem st =
     (if id' mem \<in> clustered st then (Inr (), st)
      else
        (case getVecById (id' mem) (vault st) of
           None \<Rightarrow> (Inr (), st)
         | Some vec \<Rightarrow>
             (case findSimilar vec SIMILARITY_THRESHOLD (vault st) of
                Inl e \<Rightarrow> (Inl e, st)
              | Inr found \<Rightarrow>
                  (let neighbors = filter (\<lambda>n. id' n \<noteq> id' mem \<and> id' n \<notin> clustered st \<and>
                                               id' n \<in> oldIds) found in
                   if length neighbors = 0 then (Inr (), st)
                   else merge_cluster_v2 uuid embedFn now mem neighbors st))))"

definition runConsolidation_v2 :: "(nat \<Rightarrow> string) \<Rightarrow> (string \<Rightarrow> error + vec) \<Rightarrow> int \<Rightarrow> VaultDB
    \<Rightarrow> (error + nat) \<times> pass_state" where
  "runConsolidation_v2 uuid embedFn now v =
     (let old = getActiveOlderThan SEVEN_DAYS now v in
      if length old < 2 then (Inr 0, start_pass v)
      else
        (let oldIds = set (map id' old) in
         case consolidation_loop (merge_seed_v2 uuid embedFn now oldIds) old (start_pass v) of
           (Inl e, st) \<Rightarrow> (Inl e, st)
         | (Inr _, st) \<Rightarrow> (Inr (mergeCount st), st)))"

text \<open>
  The words of the specification. The ids a list of merges has claimed; a store in which a
  merge is complete (the successor is inserted with its vector and every member of the cluster
  points at it); a cluster as step 2 and 3 of the pass require it, given the eligible ids and the
  merges before it.
\<close>

definition claimed :: "(string \<times> MemoryRow list \<times> SearchResult list) list \<Rightarrow> string set" where
  "claimed ms = (\<Union>(g, cluster, ns)\<in>set ms. set (map id' cluster))"

definition merge_complete :: "tables \<Rightarrow> string \<Rightarrow> string list \<Rightarrow> bool" where
  "merge_complete t g ids \<longleftrightarrow>
     g \<in> set (map id' (memories t)) \<and>
     (\<exists>d rows. memory_vec t = Some (d, rows) \<and> g \<in> set (map fst rows)) \<and>
     (\<forall>m\<in>set (memories t). id' m \<in> set ids \<longrightarrow> consolidated_into m = Some g)"

definition cluster_ok :: "string set \<Rightarrow> string set \<Rightarrow> MemoryRow list \<Rightarrow> SearchResult list \<Rightarrow> bool" where
  "cluster_ok eligible earlier cluster ns \<longleftrightarrow>
     ns \<noteq> [] \<and> length cluster = Suc (length ns) \<and> tl cluster = map row_of ns \<and>
     id' (hd cluster) \<notin> earlier \<and>
     (\<forall>n\<in>set ns. id' n \<in> eligible \<and> consolidated_into n = None \<and>
        similarity n \<ge> SIMILARITY_THRESHOLD \<and> id' n \<noteq> id' (hd cluster) \<and> id' n \<notin> earlier)"

fun clusters_ok :: "string set \<Rightarrow> (string \<times> MemoryRow list \<times> SearchResult list) list \<Rightarrow> bool" where
  "clusters_ok eligible [] = True"
| "clusters_ok eligible ((g, cluster, ns) # earlier) =
     (cluster_ok eligible (claimed earlier) cluster ns \<and> clusters_ok eligible earlier)"

subsection \<open>Sanitizer (sanitize.ts)\<close>












subsection \<open>The memory_save tool (index.ts)\<close>





subsection \<open>Predicates of the proofs\<close>

text \<open>The loop invariant on \<^verbatim>\<open>bestCategory\<close> and \<^verbatim>\<open>bestCategoryScore\<close>, over the rules matched
  so far.\<close>

definition best_inv :: "(regex \<times> string \<times> real) list \<Rightarrow> string \<Rightarrow> real \<Rightarrow> bool" where
  "best_inv m bc bw \<longleftrightarrow>
     (m = [] \<and> bc = ''other'' \<and> bw = 0) \<or>
     (\<exists>i. first_heaviest m i \<and> bc = rule_category (m ! i) \<and> bw = rule_weight (m ! i))"

text \<open>The texts evaluateCapture rejects at once.\<close>

definition rejected :: "string \<Rightarrow> bool" where
  "rejected text \<longleftrightarrow>
     length text < 20 \<or> length text > 2000 \<or> rx_test RELEVANT_MEMORIES_TAG text"

text \<open>
  The invariant of a pass over the store \<^verbatim>\<open>v0\<close> with eligible ids \<^verbatim>\<open>E\<close>: no transaction is
  open, the states committed since the start are one per merge, each with its merge complete,
  the connection shows the last committed state, and \<^verbatim>\<open>clustered\<close> and \<^verbatim>\<open>mergeCount\<close> agree with
  the merges made.
\<close>

definition pass_inv :: "VaultDB \<Rightarrow> string set \<Rightarrow> pass_state \<Rightarrow> bool" where
  "pass_inv v0 E st \<longleftrightarrow>
     snapshot (vault st) = None \<and>
     (\<exists>new. durable (vault st) = new @ durable v0 \<and>
        list_all2 (\<lambda>t (g, cluster, ns). merge_complete t g (map id' cluster)) new (merges st) \<and>
        db (vault st) = (case new of [] \<Rightarrow> db v0 | t # _ \<Rightarrow> t)) \<and>
     clustered st = claimed (merges st) \<and> clusters_ok E (merges st) \<and>
     mergeCount st = length (merges st)"

subsection \<open>Stores used as examples\<close>


text \<open>Three records: two with the same vector and different importance, one orthogonal.\<close>

definition three :: VaultDB where
  "three = snd (insert' ''c'' ''tea'' [0, 1] no_opts 1000
             (snd (insert' ''b'' ''dark roast'' [1, 0] (no_opts\<lparr>opt_importance := Some 1\<rparr>) 1000
                (snd (insert' ''a'' ''coffee'' [1, 0] no_opts 1000 new_VaultDB)))))"

text \<open>One record, which fixes the dimension of the store at 2.\<close>

definition one_2d :: VaultDB where
  "one_2d = snd (insert' ''a'' ''first'' [1, 0] no_opts 1000 new_VaultDB)"

text \<open>Ten days in milliseconds: the time of the example passes.\<close>

definition ten_days :: int where
  "ten_days = 10 * 24 * 60 * 60 * 1000"

text \<open>Two old records that do not resemble each other, and a recent one like the first.\<close>

definition lone_old :: VaultDB where
  "lone_old =
     snd (insert' ''c'' ''likes espresso'' [1, 0] (no_opts\<lparr>opt_createdAt := Some ten_days\<rparr>) ten_days
       (snd (insert' ''b'' ''uses vim'' [0, 1] (no_opts\<lparr>opt_createdAt := Some 0\<rparr>) 0
          (snd (insert' ''a'' ''likes coffee'' [1, 0] (no_opts\<lparr>opt_createdAt := Some 0\<rparr>) 0
             new_VaultDB)))))"

text \<open>Two old records with the same vector.\<close>

definition two_old :: VaultDB where
  "two_old =
     snd (insert' ''b'' ''likes dark roast'' [1, 0] (no_opts\<lparr>opt_createdAt := Some 0\<rparr>) 0
       (snd (insert' ''a'' ''likes coffee'' [1, 0] (no_opts\<lparr>opt_createdAt := Some 0\<rparr>) 0
          new_VaultDB)))"

text \<open>A supply of ids, an embedder of the store's dimension, and one of another dimension.\<close>

definition uuid_n :: "nat \<Rightarrow> string" where
  "uuid_n k = ''n'' @ replicate k CHR ''+''"

definition embed_x :: "string \<Rightarrow> error + vec" where
  "embed_x s = Inr [1, 0]"

definition embed_3 :: "string \<Rightarrow> error + vec" where
  "embed_3 s = Inr [1, 2, 3]"

text \<open>What a state of the tables shows of a merge: each record's id and successor, and the ids
  that have a vector.\<close>

definition summary :: "tables \<Rightarrow> (string \<times> string option) list \<times> string list" where
  "summary t = (map (\<lambda>m. (id' m, consolidated_into m)) (memories t),
                case memory_vec t of None \<Rightarrow> [] | Some (d, rows) \<Rightarrow> map fst rows)"



section \<open>Verification\<close>

subsection \<open>Ranking engine\<close>



lemma recencyDecay_now: "recencyDecay now now = 1"
  by (simp add: recencyDecay_def)



lemma accessBoost_zero: "accessBoost 0 = 1"
  by (simp add: accessBoost_def)

lemma accessBoost_le: "accessBoost n \<le> 1.3"
  unfolding accessBoost_def by (rule min.cobounded1)




subsection \<open>Capture heuristic\<close>

lemma first_heaviest_snoc_new:
  assumes "\<forall>j<length m. rule_weight (m ! j) < rule_weight r"
  shows "first_heaviest (m @ [r]) (length m)"
  using assms by (auto simp: first_heaviest_def nth_append less_Suc_eq dest: less_imp_le)

lemma first_heaviest_snoc_old:
  assumes "first_heaviest m i" "rule_weight r \<le> rule_weight (m ! i)"
  shows "first_heaviest (m @ [r]) i"
  using assms by (auto simp: first_heaviest_def nth_append less_Suc_eq)

lemma capture_step_triple:
  "capture_step text (s, bc, bw) r =
     (if rx_test (rule_pattern r) text
      then (if rule_weight r > bw then (s + rule_weight r, rule_category r, rule_weight r)
            else (s + rule_weight r, bc, bw))
      else (s, bc, bw))"
  by (simp add: capture_step_def)

lemma capture_fold:
  assumes "\<forall>r\<in>set rules. 0 < rule_weight r"
  shows "case foldl (capture_step text) (0, ''other'', 0) rules of
           (s, bc, bw) \<Rightarrow>
             s = sum_list (map rule_weight (filter (\<lambda>rule. rx_test (rule_pattern rule) text) rules)) \<and>
             best_inv (filter (\<lambda>rule. rx_test (rule_pattern rule) text) rules) bc bw"
  using assms
proof (induction rules rule: rev_induct)
  case Nil
  show ?case by (simp add: best_inv_def)
next
  case (snoc r rules)
  let ?m = "filter (\<lambda>rule. rx_test (rule_pattern rule) text) rules"
  obtain s bc bw where st: "foldl (capture_step text) (0, ''other'', 0) rules = (s, bc, bw)"
    by (cases "foldl (capture_step text) (0, ''other'', 0) rules") auto
  from snoc st have s: "s = sum_list (map rule_weight ?m)" and inv: "best_inv ?m bc bw"
    by auto
  have pos: "0 < rule_weight r" using snoc.prems by simp
  show ?case
  proof (cases "rx_test (rule_pattern r) text")
    case False
    then show ?thesis using st s inv by (simp add: capture_step_triple)
  next
    case True
    show ?thesis
    proof (cases "rule_weight r > bw")
      case gt: True
      have "\<forall>j<length ?m. rule_weight (?m ! j) < rule_weight r"
        using inv gt by (auto simp: best_inv_def first_heaviest_def intro: le_less_trans)
      then have "first_heaviest (?m @ [r]) (length ?m)" by (rule first_heaviest_snoc_new)
      then have "best_inv (?m @ [r]) (rule_category r) (rule_weight r)"
        unfolding best_inv_def by (intro disjI2 exI [of _ "length ?m"]) simp
      then show ?thesis using True gt st s by (simp add: capture_step_triple)
    next
      case le: False
      from inv pos le obtain i where i: "first_heaviest ?m i" "bc = rule_category (?m ! i)"
          "bw = rule_weight (?m ! i)"
        by (auto simp: best_inv_def)
      then have "first_heaviest (?m @ [r]) i" using le by (intro first_heaviest_snoc_old) auto
      moreover have "i < length ?m" using i by (simp add: first_heaviest_def)
      ultimately have "best_inv (?m @ [r]) bc bw"
        unfolding best_inv_def using i by (intro disjI2 exI [of _ i]) (simp add: nth_append)
      then show ?thesis using True le st s by (simp add: capture_step_triple)
    qed
  qed
qed

lemma CATEGORIES_weights_pos: "\<forall>r\<in>set CATEGORIES. 0 < rule_weight r"
  by (simp add: CATEGORIES_def rule_weight_def)

lemma CATEGORIES_total: "sum_list (map rule_weight CATEGORIES) = 1.6"
  by (simp add: CATEGORIES_def rule_weight_def)

lemma sum_filter_le:
  "\<forall>r\<in>set rules. 0 \<le> rule_weight r \<Longrightarrow>
   sum_list (map rule_weight (filter P rules)) \<le> sum_list (map rule_weight rules)"
  by (induction rules) auto

lemma evaluateCapture_rejected:
  "rejected text \<Longrightarrow> evaluateCapture text = \<lparr>capture_score = 0, capture_category = ''other''\<rparr>"
  by (auto simp: evaluateCapture_def rejected_def)

lemma evaluateCapture_accepted:
  assumes "\<not> rejected text"
  shows "capture_score (evaluateCapture text) =
           max 0 (sum_list (map rule_weight (matched_rules text))
                  - (if 2 \<le> codeBlocks text then 0.3 else 0)
                  - (if 3 \<le> markdownHeaders text then 0.2 else 0))"
    and "\<exists>bw. best_inv (matched_rules text) (capture_category (evaluateCapture text)) bw"
proof -
  obtain s bc bw where st: "foldl (capture_step text) (0, ''other'', 0) CATEGORIES = (s, bc, bw)"
    by (cases "foldl (capture_step text) (0, ''other'', 0) CATEGORIES") auto
  from capture_fold [OF CATEGORIES_weights_pos, of "text"] st
  have s: "s = sum_list (map rule_weight (matched_rules text))"
    and inv: "best_inv (matched_rules text) bc bw"
    by (auto simp: matched_rules_def)
  have ne: "text \<noteq> []" using assms by (auto simp: rejected_def)
  have ev: "evaluateCapture text =
      \<lparr>capture_score = max 0 (s - (if 2 \<le> codeBlocks text then 0.3 else 0)
                  - (if 3 \<le> markdownHeaders text then 0.2 else 0)),
       capture_category = bc\<rparr>"
    using assms ne st by (simp add: evaluateCapture_def rejected_def Let_def)
  show "capture_score (evaluateCapture text) =
           max 0 (sum_list (map rule_weight (matched_rules text))
                  - (if 2 \<le> codeBlocks text then 0.3 else 0)
                  - (if 3 \<le> markdownHeaders text then 0.2 else 0))"
    using ev s by simp
  show "\<exists>bw. best_inv (matched_rules text) (capture_category (evaluateCapture text)) bw"
    using ev inv by auto
qed





text \<open>
  C10: the score of evaluateCapture lies between 0 and 1.6, and its category is one of
  preference, entity, decision and other; fact, procedure and context are never returned.
\<close>

theorem evaluateCapture_range:
  "0 \<le> capture_score (evaluateCapture text) \<and>
   capture_score (evaluateCapture text) \<le> 1.6 \<and>
   capture_category (evaluateCapture text) \<in> {''preference'', ''entity'', ''decision'', ''other''} \<and>
   capture_category (evaluateCapture text) \<notin> {''fact'', ''procedure'', ''context''}"
proof (cases "rejected text")
  case True
  then show ?thesis by (simp add: evaluateCapture_rejected)
next
  case False
  have le: "sum_list (map rule_weight (matched_rules text)) \<le> 1.6"
    using sum_filter_le [of CATEGORIES "\<lambda>rule. rx_test (rule_pattern rule) text"]
      CATEGORIES_weights_pos CATEGORIES_total
    by (auto simp: matched_rules_def intro: less_imp_le)
  have sc: "capture_score (evaluateCapture text) \<le> 1.6"
    using evaluateCapture_accepted(1) [OF False] le by (auto simp: max_def)
  have nn: "0 \<le> capture_score (evaluateCapture text)"
    using evaluateCapture_accepted(1) [OF False] by simp
  from evaluateCapture_accepted(2) [OF False] obtain bw where
    inv: "best_inv (matched_rules text) (capture_category (evaluateCapture text)) bw" ..
  have cats: "\<forall>r\<in>set (matched_rules text).
      rule_category r \<in> {''preference'', ''entity'', ''decision''}"
    by (auto simp: matched_rules_def CATEGORIES_def rule_category_def)
  have "capture_category (evaluateCapture text) \<in> {''preference'', ''entity'', ''decision'', ''other''}"
    using inv cats by (auto simp: best_inv_def first_heaviest_def dest!: nth_mem)
  then show ?thesis using sc nn by auto
qed

lemma all_rules_capture:
  "evaluateCapture ''Remember my mail bob@example.com: we chose rust, never go.'' =
     \<lparr>capture_score = 8/5, capture_category = ''preference''\<rparr>"
  by code_simp

theorem evaluateCapture_range_witness:
  "capture_score (evaluateCapture ''Remember my mail bob@example.com: we chose rust, never go.'') = 1.6 \<and>
   capture_category (evaluateCapture ''Remember my mail bob@example.com: we chose rust, never go.'')
     \<in> {''preference'', ''entity'', ''decision'', ''other''}"
  using evaluateCapture_range [of "''Remember my mail bob@example.com: we chose rust, never go.''"]
    all_rules_capture
  by simp

subsection \<open>Similarity search: findSimilar\<close>






lemma knn_query_Inr:
  assumes "memory_vec t = Some (d, rows)"
    and "\<forall>(m, e')\<in>set (knn_candidates t cat rows). length e' = length q"
  shows "knn_query t q cat n =
           Inr (take n (sort_key snd (map (\<lambda>(m, e). (m, vec_distance_cosine e q))
                                        (knn_candidates t cat rows))))"
proof -
  have "\<not> list_ex (\<lambda>(m, e). length e \<noteq> length q) (knn_candidates t cat rows)"
    using assms(2) by (auto simp: list_ex_iff)
  then show ?thesis using assms(1) by (simp add: knn_query_def)
qed



lemma exec_Inr:
  "exec stmt v = (Inr u, v1) \<longleftrightarrow>
     (\<exists>t. stmt (db v) = Inr t \<and>
          v1 = v\<lparr>db := t, durable := (if snapshot v = None then t # durable v else durable v)\<rparr>)"
  by (auto simp: exec_def split: sum.splits)








lemmas db_defs = insert'_def ensureVec_def exec_def new_VaultDB_def empty_tables_def
  create_memory_vec_def put_dimensions_def insert_memories_def insert_memory_vec_def new_row_def
  no_opts_def




lemma findSimilar_at_most_five:
  "findSimilar e t v = Inr rs \<Longrightarrow> length rs \<le> 5"
proof -
  assume a: "findSimilar e t v = Inr rs"
  show ?thesis
  proof (cases "vecReady v")
    case False
    with a show ?thesis by (simp add: findSimilar_def)
  next
    case True
    with a obtain rows where q: "knn_query (db v) e None 5 = Inr rows"
      and rs: "rs = filter (\<lambda>r. similarity r \<ge> t) (map (\<lambda>(m, d). to_result m d (1 - d) 0) rows)"
      by (auto simp: findSimilar_def split: sum.splits)
    from q have "length rows \<le> 5"
      by (auto simp: knn_query_def Let_def split: option.splits if_splits)
    moreover have "length rs \<le> length rows" unfolding rs
      using length_filter_le [of "\<lambda>r. similarity r \<ge> t" "map (\<lambda>(m, d). to_result m d (1 - d) 0) rows"]
      by simp
    ultimately show ?thesis by simp
  qed
qed


subsection \<open>Recall: knnSearch\<close>

lemma exec_each_bump_Inr: "\<exists>v1. exec_each (bump_access now) ids v = (Inr (), v1)"
  by (induction ids arbitrary: v) (auto simp: exec_def bump_access_def)

lemma knn_query_sorted: "knn_query t q cat n = Inr rows \<Longrightarrow> sorted (map snd rows)"
proof -
  assume "knn_query t q cat n = Inr rows"
  then obtain xs where "rows = take n (sort_key snd xs)"
    by (auto simp: knn_query_def Let_def split: option.splits if_splits)
  moreover have "sorted (map snd (sort_key snd xs))" by simp
  ultimately show ?thesis by (simp add: sorted_map sorted_wrt_take)
qed

lemma distance_scored_candidates: "map distance (scored_candidates rows now) = map snd rows"
  by (induction rows) (auto simp: scored_candidates_def to_result_def Let_def)

lemma prefix_sorted_map:
  assumes "prefix xs ys" "sorted (map f ys)"
  shows "sorted (map f xs)"
proof -
  from assms(1) obtain zs where "ys = xs @ zs" by (auto simp: prefix_def)
  with assms(2) show ?thesis by (simp add: sorted_append)
qed

lemma knnSearch_Inr:
  assumes "knnSearch q limit cat now v = (Inr rs, v')" "vecReady v"
  shows "\<exists>rows. knn_query (db v) q (category_filter cat) (limit * 3) = Inr rows \<and>
           rs = take limit (sort_key (\<lambda>r. - score r) (scored_candidates rows now))"
  using assms
  by (auto simp: knnSearch_def Let_def split: sum.splits prod.splits)

text \<open>
  C7: whatever the query vector, the limit k and the category, a recall that returns gives at most
  k results in descending order of score; results of equal score are in ascending order of
  distance, and they are an initial part of the candidates of that score in the ascending-distance
  order the query produced them in.
\<close>

theorem knnSearch_ranked:
  assumes "knnSearch q limit cat now v = (Inr rs, v')"
  shows "length rs \<le> limit \<and> sorted_wrt (\<lambda>a b. score a \<ge> score b) rs \<and>
    (\<forall>s. sorted (map distance (filter (\<lambda>r. score r = s) rs))) \<and>
    (vecReady v \<longrightarrow>
           (\<exists>rows. knn_query (db v) q (category_filter cat) (limit * 3) = Inr rows \<and>
              sorted (map snd rows) \<and>
              map distance (scored_candidates rows now) = map snd rows \<and>
              (\<forall>s. prefix (filter (\<lambda>r. score r = s) rs)
                     (filter (\<lambda>r. score r = s) (scored_candidates rows now)))))"
proof (cases "vecReady v")
  case False
  with assms have "rs = []" by (simp add: knnSearch_def)
  with False show ?thesis by simp
next
  case True
  from knnSearch_Inr [OF assms True] obtain rows where
    q: "knn_query (db v) q (category_filter cat) (limit * 3) = Inr rows" and
    rs: "rs = take limit (sort_key (\<lambda>r. - score r) (scored_candidates rows now))"
    by blast
  let ?sc = "scored_candidates rows now"
  let ?ys = "sort_key (\<lambda>r. - score r) ?sc"
  have len: "length rs \<le> limit" using rs by simp
  have "sorted (map (\<lambda>r. - score r) ?ys)" by simp
  then have "sorted_wrt (\<lambda>a b. score a \<ge> score b) ?ys" by (simp add: sorted_map)
  then have srt: "sorted_wrt (\<lambda>a b. score a \<ge> score b) rs"
    unfolding rs by (rule sorted_wrt_take)
  have dsorted: "sorted (map snd rows)" by (rule knn_query_sorted [OF q])
  have stable: "prefix (filter (\<lambda>r. score r = s) rs) (filter (\<lambda>r. score r = s) ?sc)" for s
  proof -
    have "filter (\<lambda>r. - score r = - s) ?ys = filter (\<lambda>r. - score r = - s) ?sc"
      by (rule sort_key_stable)
    then have "filter (\<lambda>r. score r = s) ?ys = filter (\<lambda>r. score r = s) ?sc" by simp
    moreover have "prefix (filter (\<lambda>r. score r = s) rs) (filter (\<lambda>r. score r = s) ?ys)"
      unfolding rs by (intro filter_mono_prefix take_is_prefix)
    ultimately show ?thesis by simp
  qed
  have ties: "sorted (map distance (filter (\<lambda>r. score r = s) rs))" for s
  proof -
    have "sorted (map distance ?sc)" using dsorted by (simp add: distance_scored_candidates)
    then have "sorted (map distance (filter (\<lambda>r. score r = s) ?sc))"
      by (simp add: sorted_map sorted_wrt_filter)
    with stable [of s] show ?thesis by (rule prefix_sorted_map)
  qed
  show ?thesis using len srt ties q dsorted stable distance_scored_candidates by blast
qed

text \<open>A recall returns whenever the query vector has the length of the stored vectors.\<close>

lemma knnSearch_returns:
  assumes "\<forall>(m, e)\<in>set (active_vectors v). length e = length q"
    and "vecReady v \<longrightarrow> memory_vec (db v) \<noteq> None"
  shows "\<exists>rs v'. knnSearch q limit cat now v = (Inr rs, v')"
proof (cases "vecReady v")
  case False
  then show ?thesis by (simp add: knnSearch_def)
next
  case True
  with assms(2) obtain d rows where mv: "memory_vec (db v) = Some (d, rows)"
    by (cases "memory_vec (db v)") auto
  have "set (knn_candidates (db v) (category_filter cat) rows) \<subseteq> set (active_vectors v)"
    using mv by (auto simp: active_vectors_def knn_candidates_def)
  with assms(1) have "\<forall>(m, e')\<in>set (knn_candidates (db v) (category_filter cat) rows). length e' = length q"
    by blast
  from knn_query_Inr [OF mv this] obtain rs0 where
    q: "knn_query (db v) q (category_filter cat) (limit * 3) = Inr rs0" by blast
  obtain v1 where "exec_each (bump_access now)
      (map id' (take limit (sort_key (\<lambda>r. - score r) (scored_candidates rs0 now)))) v = (Inr (), v1)"
    using exec_each_bump_Inr by blast
  then show ?thesis using True q by (simp add: knnSearch_def Let_def)
qed


text \<open>Two candidates at distance 0 and one at distance 1; the more important of the first two
  scores higher and comes first, and the access counts of the two returned records are bumped.\<close>

lemma three_search:
  "\<exists>rs v'. knnSearch [1, 0] 2 None 1000 three = (Inr rs, v') \<and> map id' rs = [''b'', ''a''] \<and>
     map score rs = [1, 47/50] \<and> map access_count (memories (db v')) = [1, 1, 0]"
  by (simp add: three_def db_defs knnSearch_def knn_query_def knn_candidates_def joined_rows_def
      category_filter_def vec_distance_cosine_def dot_def to_result_def scored_candidates_def
      finalScore_def recencyDecay_def accessBoost_def bump_access_def)

theorem knnSearch_ranked_witness:
  "\<exists>rs v'. knnSearch [1, 0] 2 None 1000 three = (Inr rs, v') \<and> map id' rs = [''b'', ''a''] \<and>
     length rs \<le> 2 \<and> sorted_wrt (\<lambda>a b. score a \<ge> score b) rs"
proof -
  from three_search obtain rs v' where
    r: "knnSearch [1, 0] 2 None 1000 three = (Inr rs, v')" and i: "map id' rs = [''b'', ''a'']"
    by (elim exE conjE)
  from knnSearch_ranked [OF r] have "length rs \<le> 2" "sorted_wrt (\<lambda>a b. score a \<ge> score b) rs"
    by simp_all
  with r i show ?thesis by (intro exI conjI)
qed

subsection \<open>Initialization: ensureVec\<close>




subsection \<open>Atomicity of insert\<close>

text \<open>
  C1: insert is to persist the record row and its vector together or not at all. The code runs
  the two \<^verbatim>\<open>INSERT\<close> statements one after the other with no transaction around them: on a
  store of dimension 2, inserting a 3-dimensional vector writes the row, then fails on the
  vector, and the row stays, committed, with no vector.
\<close>

theorem insert_not_atomic:
  "vault_wf one_2d \<and>
   fst (insert' ''b'' ''second'' [1, 2, 3] no_opts 2000 one_2d) = Inl (Sql (VecDimension 2 3)) \<and>
   map id' (memories (db (snd (insert' ''b'' ''second'' [1, 2, 3] no_opts 2000 one_2d)))) = [''a'', ''b''] \<and>
   getVecById ''b'' (snd (insert' ''b'' ''second'' [1, 2, 3] no_opts 2000 one_2d)) = None \<and>
   db (snd (insert' ''b'' ''second'' [1, 2, 3] no_opts 2000 one_2d)) \<noteq> db one_2d \<and>
   hd (durable (snd (insert' ''b'' ''second'' [1, 2, 3] no_opts 2000 one_2d))) =
     db (snd (insert' ''b'' ''second'' [1, 2, 3] no_opts 2000 one_2d))"
  by (simp add: one_2d_def db_defs getVecById_def vault_wf_def)

subsection \<open>Transactions and the merge of a cluster\<close>

lemma exec_snapshot:
  "exec stmt v = (r, v1) \<Longrightarrow> snapshot v1 = snapshot v \<and> vecReady v1 = vecReady v"
  by (auto simp: exec_def split: sum.splits)

lemma exec_in_txn:
  "snapshot v = Some s \<Longrightarrow> exec stmt v = (r, v1) \<Longrightarrow> durable v1 = durable v"
  by (auto simp: exec_def split: sum.splits)

lemma exec_each_snapshot:
  "exec_each stmt xs v = (r, v1) \<Longrightarrow> snapshot v1 = snapshot v"
proof (induction xs arbitrary: v)
  case Nil
  then show ?case by simp
next
  case (Cons x xs)
  then show ?case
    by (auto split: prod.splits sum.splits dest: exec_snapshot)
qed

lemma exec_each_in_txn:
  "snapshot v = Some s \<Longrightarrow> exec_each stmt xs v = (r, v1) \<Longrightarrow> durable v1 = durable v"
proof (induction xs arbitrary: v)
  case Nil
  then show ?case by simp
next
  case (Cons x xs)
  show ?case
  proof (cases "exec (stmt x) v")
    case (Pair r0 v0)
    then have s0: "snapshot v0 = Some s" "durable v0 = durable v"
      using Cons.prems(1) exec_snapshot [OF Pair] exec_in_txn [OF _ Pair] by auto
    show ?thesis
    proof (cases r0)
      case (Inl e)
      with Pair Cons.prems s0 show ?thesis by simp
    next
      case (Inr u)
      with Pair Cons.prems have "exec_each stmt xs v0 = (r, v1)" by simp
      from Cons.IH [OF s0(1) this] s0 show ?thesis by simp
    qed
  qed
qed

lemma ensureVec_snapshot:
  "ensureVec n v = (r, v1) \<Longrightarrow> snapshot v1 = snapshot v"
  by (auto simp: ensureVec_def Let_def exec_def create_memory_vec_def put_dimensions_def
      split: if_splits option.splits)

lemma ensureVec_in_txn:
  "snapshot v = Some s \<Longrightarrow> ensureVec n v = (r, v1) \<Longrightarrow> durable v1 = durable v"
  by (auto simp: ensureVec_def Let_def exec_def create_memory_vec_def put_dimensions_def
      split: if_splits option.splits)

lemma insert'_in_txn:
  assumes "snapshot v = Some s" "insert' i txt e opts now v = (r, v1)"
  shows "snapshot v1 = Some s \<and> durable v1 = durable v"
proof -
  obtain r0 v0 where ev: "ensureVec (length e) v = (r0, v0)" by (cases "ensureVec (length e) v")
  have s0: "snapshot v0 = Some s" "durable v0 = durable v"
    using ensureVec_snapshot [OF ev] ensureVec_in_txn [OF assms(1) ev] assms(1) by auto
  show ?thesis
  proof (cases r0)
    case (Inl x)
    with ev assms s0 show ?thesis by (simp add: insert'_def)
  next
    case (Inr u)
    obtain r2 v2 where im: "exec (insert_memories (new_row i txt opts now)) v0 = (r2, v2)"
      by (cases "exec (insert_memories (new_row i txt opts now)) v0")
    have s2: "snapshot v2 = Some s" "durable v2 = durable v"
      using exec_snapshot [OF im] exec_in_txn [OF s0(1) im] s0 by auto
    show ?thesis
    proof (cases r2)
      case (Inl x)
      with Inr ev im assms s2 show ?thesis by (simp add: insert'_def)
    next
      case Inr2: (Inr u2)
      with Inr ev im assms have iv: "exec (insert_memory_vec i e) v2 = (r, v1)"
        by (simp add: insert'_def)
      from exec_snapshot [OF iv] exec_in_txn [OF s2(1) iv] s2 show ?thesis by simp
    qed
  qed
qed

lemma insert_and_mark_in_txn:
  assumes "snapshot v = Some s" "insert_and_mark g txt e cat imp ids now v = (r, v1)"
  shows "snapshot v1 = Some s \<and> durable v1 = durable v"
proof -
  let ?o = "no_opts\<lparr>opt_category := Some cat, opt_importance := Some imp\<rparr>"
  obtain r0 v0 where i0: "insert' g txt e ?o now v = (r0, v0)"
    by (cases "insert' g txt e ?o now v")
  note s0 = insert'_in_txn [OF assms(1) i0]
  show ?thesis
  proof (cases r0)
    case (Inl x)
    with i0 assms s0 show ?thesis by (simp add: insert_and_mark_def)
  next
    case (Inr u)
    with i0 assms have mk: "exec_each (set_consolidated g) ids v0 = (r, v1)"
      by (simp add: insert_and_mark_def markConsolidated_def)
    from exec_each_snapshot [OF mk] exec_each_in_txn [OF _ mk] s0 show ?thesis by simp
  qed
qed

text \<open>A transaction is all or nothing, for a body that neither commits nor rolls back.\<close>

lemma transaction_atomic:
  assumes none: "snapshot v = None"
    and body: "snapshot (snd (fn (v\<lparr>snapshot := Some (db v)\<rparr>))) = Some (db v) \<and>
               durable (snd (fn (v\<lparr>snapshot := Some (db v)\<rparr>))) = durable v"
    and run: "transaction fn v = (r, v')"
  shows "snapshot v' = None \<and> vecReady v' = vecReady (snd (fn (v\<lparr>snapshot := Some (db v)\<rparr>))) \<and>
         ((\<exists>e. r = Inl e) \<and> fst (fn (v\<lparr>snapshot := Some (db v)\<rparr>)) = r \<and>
            db v' = db v \<and> durable v' = durable v
          \<or> r = Inr () \<and> fst (fn (v\<lparr>snapshot := Some (db v)\<rparr>)) = Inr () \<and>
            db v' = db (snd (fn (v\<lparr>snapshot := Some (db v)\<rparr>))) \<and>
            durable v' = db v' # durable v)"
proof -
  let ?v0 = "v\<lparr>snapshot := Some (db v)\<rparr>"
  obtain r1 v1 where f: "fn ?v0 = (r1, v1)" by (cases "fn ?v0")
  from body f have s1: "snapshot v1 = Some (db v)" "durable v1 = durable v" by auto
  have b: "sql_begin v = (Inr (), ?v0)" using none by (simp add: sql_begin_def)
  show ?thesis
  proof (cases r1)
    case (Inl e)
    with run b f s1 show ?thesis
      by (auto simp: transaction_def sql_rollback_def)
  next
    case (Inr u)
    with run b f s1 show ?thesis
      by (auto simp: transaction_def sql_commit_def)
  qed
qed


text \<open>What \<^verbatim>\<open>transaction\<close> would give insert: run inside it, a failed insert leaves the
  tables and the committed states as they were, and a successful one is committed as one state.\<close>

lemma insert_in_transaction_atomic:
  assumes "snapshot v = None"
    and "transaction (insert' i txt e opts now) v = (r, v')"
  shows "snapshot v' = None \<and>
         ((\<exists>err. r = Inl err) \<and> db v' = db v \<and> durable v' = durable v \<or>
          r = Inr () \<and> durable v' = db v' # durable v)"
proof -
  let ?v0 = "v\<lparr>snapshot := Some (db v)\<rparr>"
  have "snapshot ?v0 = Some (db v)" by simp
  from insert'_in_txn [OF this surjective_pairing]
  have body: "snapshot (snd (insert' i txt e opts now ?v0)) = Some (db v) \<and>
              durable (snd (insert' i txt e opts now ?v0)) = durable v"
    by simp
  from transaction_atomic [OF assms(1) body assms(2)] show ?thesis by auto
qed

lemma exec_each_set_consolidated:
  "exec_each (set_consolidated g) ids v = (r, v1) \<Longrightarrow>
     r = Inr () \<and> memory_vec (db v1) = memory_vec (db v) \<and>
     memories (db v1) =
       map (\<lambda>m. if id' m \<in> set ids then m\<lparr>consolidated_into := Some g\<rparr> else m) (memories (db v))"
proof (induction ids arbitrary: v)
  case Nil
  then show ?case by simp
next
  case (Cons x xs)
  have "\<exists>v0. exec (set_consolidated g x) v = (Inr (), v0) \<and>
      memories (db v0) =
        map (\<lambda>m. if id' m = x then m\<lparr>consolidated_into := Some g\<rparr> else m) (memories (db v)) \<and>
      memory_vec (db v0) = memory_vec (db v)"
    by (simp add: exec_def set_consolidated_def)
  then obtain v0 where e: "exec (set_consolidated g x) v = (Inr (), v0)" and
    m0: "memories (db v0) =
      map (\<lambda>m. if id' m = x then m\<lparr>consolidated_into := Some g\<rparr> else m) (memories (db v))"
    "memory_vec (db v0) = memory_vec (db v)"
    by blast
  from Cons.prems e have "exec_each (set_consolidated g) xs v0 = (r, v1)" by simp
  from Cons.IH [OF this] m0 show ?case by (auto simp: o_def)
qed

lemma insert'_Inr_rows:
  assumes "insert' g txt e opts now v = (Inr (), v1)"
  shows "g \<in> set (map id' (memories (db v1))) \<and>
         (\<exists>d rows. memory_vec (db v1) = Some (d, rows) \<and> g \<in> set (map fst rows))"
proof -
  from assms obtain v0 v2 where
    im: "exec (insert_memories (new_row g txt opts now)) v0 = (Inr (), v2)" and
    iv: "exec (insert_memory_vec g e) v2 = (Inr (), v1)"
    by (auto simp: insert'_def split: prod.splits sum.splits)
  have idn: "id' (new_row g txt opts now) = g" by (simp add: new_row_def)
  from im have "g \<in> set (map id' (memories (db v2)))"
    by (auto simp: exec_Inr insert_memories_def idn split: if_splits)
  moreover from iv have "memories (db v1) = memories (db v2) \<and>
      (\<exists>d rows. memory_vec (db v1) = Some (d, rows) \<and> g \<in> set (map fst rows))"
    by (auto simp: exec_Inr insert_memory_vec_def split: if_splits option.splits)
  ultimately show ?thesis by simp
qed

lemma insert_and_mark_Inr:
  assumes "insert_and_mark g txt e cat imp ids now v = (Inr (), v2)"
  shows "merge_complete (db v2) g ids"
proof -
  let ?o = "no_opts\<lparr>opt_category := Some cat, opt_importance := Some imp\<rparr>"
  from assms obtain v1 where i1: "insert' g txt e ?o now v = (Inr (), v1)"
    and mk: "exec_each (set_consolidated g) ids v1 = (Inr (), v2)"
    by (auto simp: insert_and_mark_def markConsolidated_def split: prod.splits sum.splits)
  note a = insert'_Inr_rows [OF i1] and b = exec_each_set_consolidated [OF mk]
  have ids: "map id' (memories (db v2)) = map id' (memories (db v1))"
    using b by (simp add: o_def if_distrib cong: if_cong)
  show ?thesis unfolding merge_complete_def
    using a b ids by auto
qed

lemma findSimilar_props:
  assumes "findSimilar e t v = Inr rs"
  shows "\<forall>r\<in>set rs. t \<le> similarity r \<and> consolidated_into r = None"
proof (cases "vecReady v")
  case False
  with assms show ?thesis by (simp add: findSimilar_def)
next
  case True
  with assms obtain rows where q: "knn_query (db v) e None 5 = Inr rows"
    and rs: "rs = filter (\<lambda>r. similarity r \<ge> t) (map (\<lambda>(m, d). to_result m d (1 - d) 0) rows)"
    by (auto simp: findSimilar_def split: sum.splits)
  from q obtain d vrows where
    rows: "rows = take 5 (sort_key snd (map (\<lambda>(m, e'). (m, vec_distance_cosine e' e))
                                          (knn_candidates (db v) None vrows)))"
    by (auto simp: knn_query_def Let_def split: option.splits if_splits)
  have "\<forall>(m, d)\<in>set rows. consolidated_into m = None"
  proof -
    have "set rows \<subseteq> set (map (\<lambda>(m, e'). (m, vec_distance_cosine e' e))
                                (knn_candidates (db v) None vrows))"
      unfolding rows using set_take_subset [of 5] by (metis set_sort)
    then show ?thesis by (auto simp: knn_candidates_def)
  qed
  then show ?thesis unfolding rs by (auto simp: to_result_def)
qed

lemma pass_inv_start: "snapshot v = None \<Longrightarrow> pass_inv v E (start_pass v)"
  by (simp add: pass_inv_def start_pass_def claimed_def)

lemma pass_inv_drawn: "pass_inv v0 E st \<Longrightarrow> pass_inv v0 E (st\<lparr>drawn := k\<rparr>)"
  by (simp add: pass_inv_def)

lemma claimed_Cons: "claimed ((g, cluster, ns) # ms) = set (map id' cluster) \<union> claimed ms"
  by (simp add: claimed_def)

lemma merge_cluster_v2_inv:
  assumes inv: "pass_inv v0 E st"
    and ok: "cluster_ok E (clustered st) (mem # map row_of ns) ns"
    and step: "merge_cluster_v2 uuid embedFn now mem ns st = (r, st')"
  shows "pass_inv v0 E st'"
proof -
  let ?cluster = "mem # map row_of ns"
  let ?txt = "join '' | '' (map text' ?cluster)"
  let ?imp = "foldl max (importance mem) (map importance (tl ?cluster))"
  let ?g = "uuid (drawn st)"
  let ?st1 = "st\<lparr>drawn := Suc (drawn st)\<rparr>"
  have eq: "merge_cluster_v2 uuid embedFn now mem ns st =
     (case embedFn ?txt of
        Inl e \<Rightarrow> (Inl e, ?st1)
      | Inr newVec \<Rightarrow>
          (case transaction
                  (insert_and_mark ?g ?txt newVec (category mem) ?imp (map id' ?cluster) now)
                  (vault ?st1) of
             (Inl e, v1) \<Rightarrow> (Inl e, ?st1\<lparr>vault := v1\<rparr>)
           | (Inr _, v1) \<Rightarrow>
               (Inr (), ?st1\<lparr>vault := v1,
                             clustered := clustered ?st1 \<union> set (map id' ?cluster),
                             mergeCount := mergeCount ?st1 + 1,
                             merges := (?g, ?cluster, ns) # merges ?st1\<rparr>)))"
    by (simp only: merge_cluster_v2_def Let_def)
  show ?thesis
  proof (cases "embedFn ?txt")
    case (Inl e)
    with step eq have "st' = ?st1" by (simp only: sum.case prod.inject)
    with inv show ?thesis by (simp add: pass_inv_drawn)
  next
    case newVec: (Inr newVec)
    let ?fn = "insert_and_mark ?g ?txt newVec (category mem) ?imp (map id' ?cluster) now"
    obtain rt v1 where tx: "transaction ?fn (vault ?st1) = (rt, v1)"
      by (cases "transaction ?fn (vault ?st1)")
    have vs: "vault ?st1 = vault st" by simp
    have none: "snapshot (vault ?st1) = None" using inv by (simp add: pass_inv_def)
    let ?v0 = "(vault ?st1)\<lparr>snapshot := Some (db (vault ?st1))\<rparr>"
    have "snapshot ?v0 = Some (db (vault ?st1))" by simp
    from insert_and_mark_in_txn [OF this surjective_pairing]
    have body: "snapshot (snd (?fn ?v0)) = Some (db (vault ?st1)) \<and>
                durable (snd (?fn ?v0)) = durable (vault ?st1)"
      by simp
    note at = transaction_atomic [OF none body tx]
    from inv obtain new where new: "durable (vault st) = new @ durable v0"
      "list_all2 (\<lambda>t (g, cluster, ns). merge_complete t g (map id' cluster)) new (merges st)"
      "db (vault st) = (case new of [] \<Rightarrow> db v0 | t # _ \<Rightarrow> t)"
      by (auto simp: pass_inv_def)
    show ?thesis
    proof (cases rt)
      case (Inl e)
      with step eq newVec tx have st': "st' = ?st1\<lparr>vault := v1\<rparr>"
        by (simp only: sum.case prod.case prod.inject)
      from at Inl have "snapshot v1 = None" "db v1 = db (vault st)"
        "durable v1 = durable (vault st)" by (auto simp only: vs)
      with inv show ?thesis unfolding st' by (simp add: pass_inv_def)
    next
      case ok': (Inr u)
      with step eq newVec tx have st': "st' =
          ?st1\<lparr>vault := v1, clustered := clustered ?st1 \<union> set (map id' ?cluster),
                mergeCount := mergeCount ?st1 + 1,
                merges := (?g, ?cluster, ns) # merges ?st1\<rparr>"
        by (simp only: sum.case prod.case prod.inject)
      from at ok' have v1: "snapshot v1 = None" "durable v1 = db v1 # durable (vault st)"
        and f: "fst (?fn ((vault ?st1)\<lparr>snapshot := Some (db (vault ?st1))\<rparr>)) = Inr ()"
          "db v1 = db (snd (?fn ((vault ?st1)\<lparr>snapshot := Some (db (vault ?st1))\<rparr>)))"
        by (auto simp only: vs)
      have "?fn ((vault ?st1)\<lparr>snapshot := Some (db (vault ?st1))\<rparr>) =
              (Inr (), snd (?fn ((vault ?st1)\<lparr>snapshot := Some (db (vault ?st1))\<rparr>)))"
        using f(1) by (metis prod.collapse)
      from insert_and_mark_Inr [OF this] f(2)
      have mc: "merge_complete (db v1) ?g (map id' ?cluster)" by (simp only:)
      have cl: "clustered st = claimed (merges st)" using inv by (simp add: pass_inv_def)
      have d: "durable v1 = (db v1 # new) @ durable v0" using v1 new by simp
      have l: "list_all2 (\<lambda>t (g, cluster, ns). merge_complete t g (map id' cluster))
                 (db v1 # new) ((?g, ?cluster, ns) # merges st)"
        using mc new(2) by simp
      have c1: "clustered st' = claimed (merges st')"
        unfolding st' using cl by (simp add: claimed_Cons Un_commute)
      have c2: "clusters_ok E (merges st')"
        unfolding st' using ok cl inv by (simp add: pass_inv_def)
      have c3: "mergeCount st' = length (merges st')"
        unfolding st' using inv by (simp add: pass_inv_def)
      have c4: "\<exists>new'. durable (vault st') = new' @ durable v0 \<and>
          list_all2 (\<lambda>t (g, cluster, ns). merge_complete t g (map id' cluster)) new' (merges st') \<and>
          db (vault st') = (case new' of [] \<Rightarrow> db v0 | t # _ \<Rightarrow> t)"
        unfolding st' using d l by (intro exI [of _ "db v1 # new"]) simp
      have c5: "snapshot (vault st') = None" unfolding st' using v1(1) by simp
      show ?thesis unfolding pass_inv_def using c1 c2 c3 c4 c5 by blast
    qed
  qed
qed

lemma merge_seed_v2_inv:
  assumes inv: "pass_inv v0 E st"
    and step: "merge_seed_v2 uuid embedFn now E mem st = (r, st')"
  shows "pass_inv v0 E st'"
proof (cases "id' mem \<in> clustered st")
  case True
  with step inv show ?thesis by (simp add: merge_seed_v2_def)
next
  case unclaimed: False
  show ?thesis
  proof (cases "getVecById (id' mem) (vault st)")
    case None
    with step inv unclaimed show ?thesis by (simp add: merge_seed_v2_def)
  next
    case (Some vec)
    show ?thesis
    proof (cases "findSimilar vec SIMILARITY_THRESHOLD (vault st)")
      case (Inl e)
      with step inv unclaimed Some show ?thesis by (simp add: merge_seed_v2_def)
    next
      case (Inr found)
      let ?ns = "filter (\<lambda>n. id' n \<noteq> id' mem \<and> id' n \<notin> clustered st \<and> id' n \<in> E) found"
      have eq: "merge_seed_v2 uuid embedFn now E mem st =
          (if length ?ns = 0 then (Inr (), st) else merge_cluster_v2 uuid embedFn now mem ?ns st)"
        unfolding merge_seed_v2_def Let_def using unclaimed Some Inr by simp
      show ?thesis
      proof (cases "?ns = []")
        case True
        with step eq inv show ?thesis by simp
      next
        case ne: False
        with step eq have mc: "merge_cluster_v2 uuid embedFn now mem ?ns st = (r, st')" by simp
        have props: "\<forall>n\<in>set ?ns. SIMILARITY_THRESHOLD \<le> similarity n \<and> consolidated_into n = None"
          using findSimilar_props [OF Inr] by auto
        have cok: "cluster_ok E (clustered st) (mem # map row_of ?ns) ?ns"
          unfolding cluster_ok_def using ne unclaimed props by auto
        from merge_cluster_v2_inv [OF inv cok mc] show ?thesis .
      qed
    qed
  qed
qed

lemma consolidation_loop_inv:
  assumes "\<And>mem st r st'. P st \<Longrightarrow> body mem st = (r, st') \<Longrightarrow> P st'"
    and "P st" "consolidation_loop body xs st = (r, st')"
  shows "P st'"
  using assms(2,3)
proof (induction xs arbitrary: st)
  case Nil
  then show ?case by simp
next
  case (Cons x xs)
  obtain r1 st1 where b: "body x st = (r1, st1)" by (cases "body x st")
  from assms(1) [OF Cons.prems(1) b] have p1: "P st1" .
  show ?case
  proof (cases r1)
    case (Inl e)
    with b Cons.prems p1 show ?thesis by simp
  next
    case (Inr u)
    with b Cons.prems have "consolidation_loop body xs st1 = (r, st')" by simp
    from Cons.IH [OF p1 this] show ?thesis .
  qed
qed

lemma runConsolidation_v2_inv:
  assumes "snapshot v = None" "runConsolidation_v2 uuid embedFn now v = (r, st)"
  shows "pass_inv v (set (map id' (getActiveOlderThan SEVEN_DAYS now v))) st"
proof -
  let ?old = "getActiveOlderThan SEVEN_DAYS now v"
  let ?E = "set (map id' ?old)"
  show ?thesis
  proof (cases "length ?old < 2")
    case True
    with assms have "st = start_pass v" by (simp add: runConsolidation_v2_def Let_def)
    then show ?thesis using pass_inv_start [OF assms(1)] by simp
  next
    case False
    obtain r1 st1 where l: "consolidation_loop (merge_seed_v2 uuid embedFn now ?E) ?old (start_pass v) = (r1, st1)"
      by (cases "consolidation_loop (merge_seed_v2 uuid embedFn now ?E) ?old (start_pass v)")
    have "st = st1" using assms(2) False l
      by (cases r1) (simp_all add: runConsolidation_v2_def Let_def)
    moreover have "pass_inv v ?E st1"
      by (rule consolidation_loop_inv [where P = "pass_inv v ?E", OF merge_seed_v2_inv
            pass_inv_start [OF assms(1)] l])
    ultimately show ?thesis by simp
  qed
qed


lemma eligible_iff:
  "i \<in> set (map id' (getActiveOlderThan age now v)) \<longleftrightarrow>
     (\<exists>m\<in>set (memories (db v)). id' m = i \<and> consolidated_into m = None \<and> created_at m < now - age)"
  by (auto simp: getActiveOlderThan_def Let_def)

lemma runConsolidation_v2_count:
  assumes "runConsolidation_v2 uuid embedFn now v = (Inr n, st)"
  shows "n = mergeCount st"
proof -
  let ?old = "getActiveOlderThan SEVEN_DAYS now v"
  show ?thesis
  proof (cases "length ?old < 2")
    case True
    with assms show ?thesis by (auto simp: runConsolidation_v2_def Let_def start_pass_def)
  next
    case False
    with assms show ?thesis
      by (auto simp: runConsolidation_v2_def Let_def split: prod.splits sum.splits)
  qed
qed

text \<open>
  The second definition of runConsolidation does what C2 asks: started with no transaction open,
  a pass commits one state per merge, in which the successor is inserted with its vector and
  every member of the cluster points at it; between two such states nothing is committed, and a
  pass that fails leaves the connection on the last of them.
\<close>

lemma runConsolidation_v2_atomic:
  assumes "snapshot v = None" "runConsolidation_v2 uuid embedFn now v = (r, st)"
  shows "snapshot (vault st) = None \<and>
         (\<exists>new. durable (vault st) = new @ durable v \<and>
            list_all2 (\<lambda>t (g, cluster, ns). merge_complete t g (map id' cluster)) new (merges st) \<and>
            db (vault st) = (case new of [] \<Rightarrow> db v | t # _ \<Rightarrow> t)) \<and>
         (\<forall>n. r = Inr n \<longrightarrow> n = length (merges st))"
  using runConsolidation_v2_inv [OF assms] runConsolidation_v2_count [of uuid embedFn now v _ st] assms(2)
  by (auto simp: pass_inv_def)

text \<open>
  The second definition of runConsolidation does what C4 asks: every merge has at least one
  neighbour; every neighbour is one of the records eligible at the start of the pass, is active,
  has similarity at least 0.85, is not the seed and is claimed by no earlier merge; nor is the
  seed.
\<close>

lemma runConsolidation_v2_clusters:
  assumes "snapshot v = None" "runConsolidation_v2 uuid embedFn now v = (r, st)"
  shows "clusters_ok (set (map id' (getActiveOlderThan SEVEN_DAYS now v))) (merges st) \<and>
         (\<forall>n. r = Inr n \<longrightarrow> n = length (merges st))"
  using runConsolidation_v2_inv [OF assms] runConsolidation_v2_count [of uuid embedFn now v _ st] assms(2)
  by (auto simp: pass_inv_def)

subsection \<open>Consolidation: the two definitions on the same stores\<close>

lemmas cons_defs = runConsolidation_v1_def runConsolidation_v2_def merge_seed_v1_def merge_seed_v2_def
  merge_cluster_v1_def merge_cluster_v2_def
  getActiveOlderThan_def getVecById_def findSimilar_def knn_query_def knn_candidates_def joined_rows_def
  vec_distance_cosine_def dot_def to_result_def row_of_def insert_and_mark_def markConsolidated_def
  set_consolidated_def transaction_def sql_begin_def sql_commit_def sql_rollback_def start_pass_def
  SEVEN_DAYS_def SIMILARITY_THRESHOLD_def List.map_filter_def

text \<open>In the store \<^verbatim>\<open>lone_old\<close> the records a and b are old and active, c is recent; a and c have the
  same vector, b an orthogonal one.\<close>

lemma lone_old_ids:
  "map (\<lambda>m. (id' m, consolidated_into m)) (memories (db lone_old)) = [(''a'', None), (''b'', None), (''c'', None)]"
  by (simp add: lone_old_def db_defs ten_days_def)


text \<open>The second definition (lines 55 to 95) skips the seed on the same store.\<close>

lemma runConsolidation_v2_skips_lone_seed:
  "fst (runConsolidation_v2 uuid_n embed_x ten_days lone_old) = Inr 0 \<and>
   db (vault (snd (runConsolidation_v2 uuid_n embed_x ten_days lone_old))) = db lone_old"
  by (simp add: lone_old_def db_defs ten_days_def cons_defs uuid_n_def embed_x_def Let_def)


text \<open>The second definition (lines 55 to 95) on the same store: the merge is committed as one
  state, and the failed merge leaves the store as it was.\<close>

lemma runConsolidation_v2_one_commit:
  "fst (runConsolidation_v2 uuid_n embed_x ten_days two_old) = Inr 1 \<and>
   durable (vault (snd (runConsolidation_v2 uuid_n embed_x ten_days two_old))) =
     db (vault (snd (runConsolidation_v2 uuid_n embed_x ten_days two_old))) # durable two_old \<and>
   summary (db (vault (snd (runConsolidation_v2 uuid_n embed_x ten_days two_old)))) =
     ([(''a'', Some ''n''), (''b'', Some ''n''), (''n'', None)], [''a'', ''b'', ''n''])"
  by (simp add: two_old_def db_defs ten_days_def cons_defs uuid_n_def embed_x_def Let_def summary_def)

lemma runConsolidation_v2_failed_merge:
  "fst (runConsolidation_v2 uuid_n embed_3 ten_days two_old) = Inl (Sql (VecDimension 2 3)) \<and>
   db (vault (snd (runConsolidation_v2 uuid_n embed_3 ten_days two_old))) = db two_old \<and>
   durable (vault (snd (runConsolidation_v2 uuid_n embed_3 ten_days two_old))) = durable two_old"
  by (simp add: two_old_def db_defs ten_days_def cons_defs uuid_n_def embed_3_def Let_def summary_def)

subsection \<open>Deduplication on save\<close>














end
